theory Spec2Isabelle
  imports Main
begin

section \<open>Configuration data (types.ts)\<close>

text \<open>
  \<^verbatim>\<open>ConfigRecord = Record<string, string | undefined>\<close>. A configuration object is a plain
  object, as an object literal or parsed JSON gives it; the map holds its own properties,
  whose values are strings. The code only reads configuration objects, so an object is
  identified with its contents.
\<close>

type_synonym ConfigRecord = "string \<rightharpoonup> string"

text \<open>
  What a property read \<^verbatim>\<open>env[key]\<close> can yield. The code makes no own-property test, so
  a name that the object does not define is looked up in \<^verbatim>\<open>Object.prototype\<close>, whose
  members are functions, or for \<^verbatim>\<open>__proto__\<close> an object: values that are truthy and
  are not strings. They are told apart by name only. An own property set to
  \<^verbatim>\<open>undefined\<close> reads like one that is not set, unless \<^verbatim>\<open>Object.prototype\<close> defines
  the name: objects that shadow a member of \<^verbatim>\<open>Object.prototype\<close> with \<^verbatim>\<open>undefined\<close>,
  and objects without that prototype, are not represented.
\<close>

datatype jsval = JUndefined | JString string | JObject string

definition Object_prototype :: "string \<rightharpoonup> jsval" where
  "Object_prototype =
     map_of
       [(''constructor'', JObject ''Object''),
        (''__defineGetter__'', JObject ''__defineGetter__''),
        (''__defineSetter__'', JObject ''__defineSetter__''),
        (''hasOwnProperty'', JObject ''hasOwnProperty''),
        (''__lookupGetter__'', JObject ''__lookupGetter__''),
        (''__lookupSetter__'', JObject ''__lookupSetter__''),
        (''isPrototypeOf'', JObject ''isPrototypeOf''),
        (''propertyIsEnumerable'', JObject ''propertyIsEnumerable''),
        (''toString'', JObject ''toString''),
        (''valueOf'', JObject ''valueOf''),
        (''__proto__'', JObject ''Object.prototype''),
        (''toLocaleString'', JObject ''toLocaleString'')]"

definition read_prop :: "ConfigRecord \<Rightarrow> string \<Rightarrow> jsval" where
  "read_prop env key =
     (case env key of
        Some s \<Rightarrow> JString s
      | None \<Rightarrow> (case Object_prototype key of Some v \<Rightarrow> v | None \<Rightarrow> JUndefined))"

text \<open>The values that count as false in a condition: \<^verbatim>\<open>undefined\<close> and the empty string.\<close>

fun falsy :: "jsval \<Rightarrow> bool" where
  "falsy JUndefined = True"
| "falsy (JString s) = (s = '''')"
| "falsy (JObject n) = False"

text \<open>
  \<^verbatim>\<open>GetConfigOptions<T>\<close>: both fields are optional; the option record itself is an
  optional argument of \<^verbatim>\<open>ConfigLoader.get\<close>.
\<close>

record GetConfigOptions =
  required :: "bool option"
  defaultValue :: "string option"

text \<open>\<^verbatim>\<open>ConfigLoaderOptions\<close>: every field optional.\<close>

record ConfigLoaderOptions =
  maxWaitMsOpt :: "int option"
  pollIntervalMsOpt :: "int option"
  configKeyOpt :: "string option"

text \<open>
  The global object \<^verbatim>\<open>window\<close>, read as \<^verbatim>\<open>Record<string, T>\<close>: a property holds a
  configuration object or is \<^verbatim>\<open>undefined\<close>. An environment without a global
  \<^verbatim>\<open>window\<close> (no browser) is \<open>None\<close>.
\<close>

type_synonym window = "string \<rightharpoonup> ConfigRecord"
type_synonym global = "window option"

text \<open>
  The errors the code raises, one constructor for each \<^verbatim>\<open>throw\<close> or \<^verbatim>\<open>reject\<close> of the
  source, carrying the values its message interpolates; \<open>ReferenceError\<close> is what
  JavaScript raises when the identifier \<^verbatim>\<open>window\<close> is read where none is declared.
\<close>

datatype error =
    NonBrowserEnvironment string
  | WindowConfigNotDefined string
  | RequiredMissingOrEmpty string string
  | RequiredMissing string string
  | LoadTimeout int string
  | ReferenceError

text \<open>The error kinds by which the specification names these errors.\<close>

datatype error_kind =
    ConfigSourceUnavailable
  | MissingRequiredKey
  | ConfigLoadTimeout
  | UncaughtReference

fun kind :: "error \<Rightarrow> error_kind" where
  "kind (NonBrowserEnvironment ck) = ConfigSourceUnavailable"
| "kind (WindowConfigNotDefined ck) = ConfigSourceUnavailable"
| "kind (RequiredMissingOrEmpty k ck) = MissingRequiredKey"
| "kind (RequiredMissing k ck) = MissingRequiredKey"
| "kind (LoadTimeout ms ck) = ConfigLoadTimeout"
| "kind ReferenceError = UncaughtReference"

text \<open>JavaScript truthiness of a slot value: an object is truthy, \<^verbatim>\<open>undefined\<close> is not.\<close>

definition truthy :: "'a option \<Rightarrow> bool" where
  "truthy v = (v \<noteq> None)"

text \<open>\<^verbatim>\<open>typeof window\<close>, which never raises.\<close>

definition typeof_window :: "global \<Rightarrow> string" where
  "typeof_window g = (case g of None \<Rightarrow> ''undefined'' | Some w \<Rightarrow> ''object'')"

text \<open>\<^verbatim>\<open>window[k]\<close>: raises where no \<^verbatim>\<open>window\<close> exists.\<close>

definition window_prop :: "global \<Rightarrow> string \<Rightarrow> error + ConfigRecord option" where
  "window_prop g k = (case g of None \<Rightarrow> Inl ReferenceError | Some w \<Rightarrow> Inr (w k))"

section \<open>The synchronous accessor (class Config)\<close>

record Config =
  configKey :: string

definition Config_new :: "string option \<Rightarrow> Config" where
  "Config_new ck = \<lparr>configKey = (case ck of None \<Rightarrow> ''ENV'' | Some k \<Rightarrow> k)\<rparr>"

definition getEnv :: "Config \<Rightarrow> global \<Rightarrow> error + ConfigRecord" where
  "getEnv this g =
     (if typeof_window g = ''undefined'' then Inl (NonBrowserEnvironment (configKey this))
      else case window_prop g (configKey this) of
             Inl e \<Rightarrow> Inl e
           | Inr windowConfig \<Rightarrow>
               (case windowConfig of
                  None \<Rightarrow> Inl (WindowConfigNotDefined (configKey this))
                | Some env \<Rightarrow> Inr env))"


definition getOptional :: "Config \<Rightarrow> global \<Rightarrow> string \<Rightarrow> error + jsval" where
  "getOptional this g key =
     (case getEnv this g of
        Inl e \<Rightarrow> Inl e
      | Inr env \<Rightarrow>
          (let v = read_prop env key in
           if falsy v then Inr JUndefined else Inr v))"

definition getBoolean :: "Config \<Rightarrow> global \<Rightarrow> string \<Rightarrow> bool \<Rightarrow> error + bool" where
  "getBoolean this g key dflt =
     (case getOptional this g key of
        Inl e \<Rightarrow> Inl e
      | Inr v \<Rightarrow> Inr (v = JString ''true'' \<or> dflt))"

text \<open>The call \<^verbatim>\<open>getBoolean(key)\<close>, with the default of the parameter.\<close>

definition getBoolean0 :: "Config \<Rightarrow> global \<Rightarrow> string \<Rightarrow> error + bool" where
  "getBoolean0 this g key = getBoolean this g key False"

definition Config_getAll :: "Config \<Rightarrow> global \<Rightarrow> error + ConfigRecord" where
  "Config_getAll this g = getEnv this g"

definition isAvailable :: "Config \<Rightarrow> global \<Rightarrow> error + bool" where
  "isAvailable this g =
     (if typeof_window g \<noteq> ''undefined''
      then (case window_prop g (configKey this) of
              Inl e \<Rightarrow> Inl e
            | Inr windowConfig \<Rightarrow> Inr (truthy windowConfig))
      else Inr False)"

section \<open>The asynchronous loader (class ConfigLoader)\<close>

text \<open>
  The fields of an instance. \<open>loadingPromise\<close> holds the identity of a promise (its index
  in the table of promises below) or \<^verbatim>\<open>null\<close>.
\<close>

record ConfigLoader =
  config :: "ConfigRecord option"
  loadingPromise :: "nat option"
  maxWaitMs :: int
  pollIntervalMs :: int
  configKey' :: string

definition ConfigLoader_new :: "ConfigLoaderOptions \<Rightarrow> ConfigLoader" where
  "ConfigLoader_new options =
     \<lparr>config = None, loadingPromise = None,
      maxWaitMs = (case maxWaitMsOpt options of None \<Rightarrow> 10000 | Some n \<Rightarrow> n),
      pollIntervalMs = (case pollIntervalMsOpt options of None \<Rightarrow> 50 | Some n \<Rightarrow> n),
      configKey' = (case configKeyOpt options of None \<Rightarrow> ''ENV'' | Some k \<Rightarrow> k)\<rparr>"

text \<open>
  A promise is pending until it is settled once, with a value or with an error.
  A timer is a scheduled call of the closure \<^verbatim>\<open>checkConfig\<close>: the closure holds the
  \<^verbatim>\<open>resolve\<close> and \<^verbatim>\<open>reject\<close> of its promise and its \<^verbatim>\<open>startTime\<close>.
\<close>

datatype promise = Pending | Fulfilled ConfigRecord | Rejected error

record timer =
  due :: int
  promiseId :: nat
  startTime :: int

text \<open>
  What the single thread of control of the event loop sees: the instance, a browser's
  global object (the loader reads \<^verbatim>\<open>window\<close> unguarded, so it is modelled where
  \<^verbatim>\<open>window\<close> exists), the clock \<^verbatim>\<open>Date.now()\<close> in milliseconds, every promise created
  so far, and the timers not yet fired.
\<close>

record world =
  loader :: ConfigLoader
  window :: window
  now :: int
  promises :: "promise list"
  timers :: "timer list"

definition is_pending :: "world \<Rightarrow> nat \<Rightarrow> bool" where
  "is_pending w p =
     (p < length (promises w) \<and> (case promises w ! p of Pending \<Rightarrow> True | _ \<Rightarrow> False))"

text \<open>Settling a promise that is already settled does nothing.\<close>

definition resolve :: "nat \<Rightarrow> ConfigRecord \<Rightarrow> world \<Rightarrow> world" where
  "resolve p v w =
     (if is_pending w p then w\<lparr>promises := (promises w)[p := Fulfilled v]\<rparr> else w)"

definition reject :: "nat \<Rightarrow> error \<Rightarrow> world \<Rightarrow> world" where
  "reject p e w =
     (if is_pending w p then w\<lparr>promises := (promises w)[p := Rejected e]\<rparr> else w)"

definition setTimeout :: "nat \<Rightarrow> int \<Rightarrow> int \<Rightarrow> world \<Rightarrow> world" where
  "setTimeout p start delay w =
     w\<lparr>timers := timers w @ [\<lparr>due = now w + delay, promiseId = p, startTime = start\<rparr>]\<rparr>"

text \<open>The closure \<^verbatim>\<open>checkConfig\<close> of the promise \<open>p\<close> created at \<open>start\<close>.\<close>

definition checkConfig :: "nat \<Rightarrow> int \<Rightarrow> world \<Rightarrow> world" where
  "checkConfig p start w =
     (case window w (configKey' (loader w)) of
        Some windowConfig \<Rightarrow>
          resolve p windowConfig
            (w\<lparr>loader := (loader w)\<lparr>config := Some windowConfig, loadingPromise := None\<rparr>\<rparr>)
      | None \<Rightarrow>
          (let elapsed = now w - start in
           if elapsed \<ge> maxWaitMs (loader w)
           then reject p (LoadTimeout (maxWaitMs (loader w)) (configKey' (loader w)))
                  (w\<lparr>loader := (loader w)\<lparr>loadingPromise := None\<rparr>\<rparr>)
           else setTimeout p start (pollIntervalMs (loader w)) w))"

text \<open>
  What the promise returned by the \<^verbatim>\<open>async\<close> function \<^verbatim>\<open>loadConfig\<close> is resolved with:
  the cached object, or the promise it then follows.
\<close>

datatype awaited = Ready ConfigRecord | Follow nat

text \<open>
  \<^verbatim>\<open>loadConfig\<close>. The executor of \<^verbatim>\<open>new Promise\<close> runs at once, and the first
  \<^verbatim>\<open>checkConfig()\<close> inside it; the new promise is assigned to \<^verbatim>\<open>this.loadingPromise\<close>
  after the constructor has returned. The clock is read for \<^verbatim>\<open>startTime\<close> and again by the
  first check in the same turn of the event loop; both readings are \<open>now\<close>.
\<close>

definition loadConfig :: "world \<Rightarrow> awaited \<times> world" where
  "loadConfig w =
     (case config (loader w) of
        Some c \<Rightarrow> (Ready c, w)
      | None \<Rightarrow>
          (case loadingPromise (loader w) of
             Some p \<Rightarrow> (Follow p, w)
           | None \<Rightarrow>
               (let p = length (promises w);
                    w1 = w\<lparr>promises := promises w @ [Pending]\<rparr>;
                    w2 = checkConfig p (now w1) w1;
                    w3 = w2\<lparr>loader := (loader w2)\<lparr>loadingPromise := Some p\<rparr>\<rparr>
                in (Follow p, w3))))"

text \<open>The state of an awaited load, as a waiter sees it.\<close>

datatype 'a outcome = Waiting | Resolved 'a | Failed error

definition await :: "world \<Rightarrow> awaited \<Rightarrow> ConfigRecord outcome" where
  "await w a =
     (case a of
        Ready c \<Rightarrow> Resolved c
      | Follow p \<Rightarrow>
          (if p < length (promises w)
           then (case promises w ! p of
                   Pending \<Rightarrow> Waiting
                 | Fulfilled c \<Rightarrow> Resolved c
                 | Rejected e \<Rightarrow> Failed e)
           else Waiting))"

text \<open>\<^verbatim>\<open>options?.required\<close> as a condition, and \<^verbatim>\<open>options?.defaultValue\<close>.\<close>

definition options_required :: "GetConfigOptions option \<Rightarrow> bool" where
  "options_required options =
     (case options of None \<Rightarrow> False | Some opts \<Rightarrow> required opts = Some True)"

definition options_defaultValue :: "GetConfigOptions option \<Rightarrow> string option" where
  "options_defaultValue options =
     (case options of None \<Rightarrow> None | Some opts \<Rightarrow> defaultValue opts)"

text \<open>The body of \<^verbatim>\<open>get\<close> after its \<^verbatim>\<open>await\<close>, on the loaded object.\<close>

definition get_value ::
  "ConfigLoader \<Rightarrow> string \<Rightarrow> GetConfigOptions option \<Rightarrow> ConfigRecord \<Rightarrow> error + jsval"
where
  "get_value this key options cfg =
     (let v = read_prop cfg key in
      if options_required options \<and> (v = JUndefined \<or> v = JString '''')
      then Inl (RequiredMissing key (configKey' this))
      else Inr (if v \<noteq> JUndefined then v
                else (case options_defaultValue options of
                        None \<Rightarrow> JUndefined
                      | Some d \<Rightarrow> JString d)))"

text \<open>\<^verbatim>\<open>get\<close> up to its \<^verbatim>\<open>await\<close>, and the result its caller gets from there.\<close>

definition get :: "string \<Rightarrow> GetConfigOptions option \<Rightarrow> world \<Rightarrow> awaited \<times> world" where
  "get key options w = loadConfig w"

definition get_result ::
  "world \<Rightarrow> awaited \<Rightarrow> string \<Rightarrow> GetConfigOptions option \<Rightarrow> jsval outcome"
where
  "get_result w a key options =
     (case await w a of
        Waiting \<Rightarrow> Waiting
      | Failed e \<Rightarrow> Failed e
      | Resolved cfg \<Rightarrow>
          (case get_value (loader w) key options cfg of
             Inl e \<Rightarrow> Failed e
           | Inr v \<Rightarrow> Resolved v))"

definition ConfigLoader_getAll :: "world \<Rightarrow> awaited \<times> world" where
  "ConfigLoader_getAll w = loadConfig w"

definition getAll_result :: "world \<Rightarrow> awaited \<Rightarrow> ConfigRecord outcome" where
  "getAll_result w a = await w a"

definition isLoaded :: "world \<Rightarrow> bool" where
  "isLoaded w = (config (loader w) \<noteq> None)"

definition reload :: "world \<Rightarrow> world" where
  "reload w = w\<lparr>loader := (loader w)\<lparr>config := None, loadingPromise := None\<rparr>\<rparr>"

subsection \<open>The event loop\<close>

text \<open>
  One turn of the event loop: a call on the instance, the host writing a property of
  \<^verbatim>\<open>window\<close>, time passing, or a timer firing. A timer fires no earlier than it is due;
  it then leaves the timer list and its closure runs.
\<close>

definition fire :: "nat \<Rightarrow> world \<Rightarrow> world" where
  "fire i w =
     (if i < length (timers w) \<and> due (timers w ! i) \<le> now w
      then (let t = timers w ! i
            in checkConfig (promiseId t) (startTime t)
                 (w\<lparr>timers := take i (timers w) @ drop (Suc i) (timers w)\<rparr>))
      else w)"

datatype event =
    Get string "GetConfigOptions option"
  | GetAll
  | IsLoaded
  | Reload
  | SetSlot string "ConfigRecord option"
  | Advance nat
  | Fire nat

datatype reply = Awaits awaited | Answer bool | Done

fun exec :: "event \<Rightarrow> world \<Rightarrow> reply \<times> world" where
  "exec (Get key options) w = (let (a, w') = get key options w in (Awaits a, w'))"
| "exec GetAll w = (let (a, w') = ConfigLoader_getAll w in (Awaits a, w'))"
| "exec IsLoaded w = (Answer (isLoaded w), w)"
| "exec Reload w = (Done, reload w)"
| "exec (SetSlot k v) w = (Done, w\<lparr>window := (window w)(k := v)\<rparr>)"
| "exec (Advance d) w = (Done, w\<lparr>now := now w + int d\<rparr>)"
| "exec (Fire i) w = (Done, fire i w)"

fun run :: "event list \<Rightarrow> world \<Rightarrow> reply list \<times> world" where
  "run [] w = ([], w)"
| "run (ev # evs) w =
     (let (r, w1) = exec ev w; (rs, w2) = run evs w1 in (r # rs, w2))"

definition start_world :: "ConfigLoader \<Rightarrow> window \<Rightarrow> int \<Rightarrow> world" where
  "start_world l win t = \<lparr>loader = l, window = win, now = t, promises = [], timers = []\<rparr>"

text \<open>The calls that await the load.\<close>

fun is_call :: "event \<Rightarrow> bool" where
  "is_call (Get key options) = True"
| "is_call GetAll = True"
| "is_call ev = False"

text \<open>
  The event loop serving the pending checks while nobody writes the slot and nobody calls
  the instance: the oldest timer fires when it is due, or \<open>d\<close> milliseconds late, once for
  each \<open>d\<close> of the list.
\<close>

fun poll_on :: "nat list \<Rightarrow> world \<Rightarrow> world" where
  "poll_on [] w = w"
| "poll_on (d # ds) w =
     (case timers w of
        [] \<Rightarrow> w
      | t # ts \<Rightarrow> poll_on ds (fire 0 (w\<lparr>now := max (now w) (due t) + int d\<rparr>)))"

subsection \<open>Two invariants of the event loop\<close>

text \<open>
  \<open>single_cycle\<close>: no check is scheduled, or exactly one is and the instance is waiting
  (cache empty, in-flight reference set). \<open>well_timed\<close>: the scheduled checks belong to
  different promises, all of them pending.
\<close>

definition single_cycle :: "world \<Rightarrow> bool" where
  "single_cycle w =
     (timers w = [] \<or>
      (config (loader w) = None \<and> loadingPromise (loader w) \<noteq> None \<and> length (timers w) = 1))"

definition well_timed :: "world \<Rightarrow> bool" where
  "well_timed w =
     (distinct (map promiseId (timers w)) \<and> (\<forall>t\<in>set (timers w). is_pending w (promiseId t)))"

text \<open>
  \<open>waiting_on p st\<close>: the instance waits on the pending promise \<open>p\<close>, created at \<open>st\<close>, its
  check is the only one scheduled, and the slot \<open>k\<close> of the instance is empty. An event
  \<open>leaves_slot k\<close> if it is not \<open>reload\<close> and puts no object in that slot.
\<close>

definition waiting_on :: "nat \<Rightarrow> int \<Rightarrow> world \<Rightarrow> bool" where
  "waiting_on p st w =
     (config (loader w) = None \<and> loadingPromise (loader w) = Some p \<and> is_pending w p
      \<and> window w (configKey' (loader w)) = None
      \<and> (case timers w of [t] \<Rightarrow> promiseId t = p \<and> startTime t = st | _ \<Rightarrow> False))"

fun leaves_slot :: "string \<Rightarrow> event \<Rightarrow> bool" where
  "leaves_slot k Reload = False"
| "leaves_slot k (SetSlot k' v) = (k' \<noteq> k \<or> v = None)"
| "leaves_slot k ev = True"

subsection \<open>Histories used as examples\<close>

text \<open>
  An instance built with the default options at time 0; the same after a first
  \<open>getAll\<close> on a page whose slot is set; an instance whose wait was abandoned by
  \<open>reload\<close> and that is waiting again when the slot appears; an instance that loaded after
  such a \<open>reload\<close>; an instance with \<open>maxWaitMs = 100\<close> and \<open>pollIntervalMs = 30\<close>, 110
  milliseconds into a wait during which the slot was never set; and an instance with the
  same options whose first wait, begun at 0, was abandoned by \<open>reload\<close> at 80 for a second
  wait, every timer having fired when it was due, seen at 125.
\<close>

definition default_world :: "window \<Rightarrow> world" where
  "default_world win =
     start_world
       (ConfigLoader_new \<lparr>maxWaitMsOpt = None, pollIntervalMsOpt = None, configKeyOpt = None\<rparr>)
       win 0"

definition loaded_world :: world where
  "loaded_world =
     snd (run [GetAll] (default_world [''ENV'' \<mapsto> [''A'' \<mapsto> ''1'', ''E'' \<mapsto> '''']]))"

definition orphan_world :: world where
  "orphan_world =
     snd (run [Get ''X'' None, Reload, Get ''X'' None,
               SetSlot ''ENV'' (Some [''X'' \<mapsto> ''1'']), Advance 50]
            (default_world Map.empty))"

definition cached_world :: world where
  "cached_world =
     snd (run [Get ''X'' None, Reload, SetSlot ''ENV'' (Some [''X'' \<mapsto> ''1'']), Get ''X'' None]
            (default_world Map.empty))"

definition late_slot_world :: world where
  "late_slot_world =
     snd (run [Get ''X'' None, Advance 30, Fire 0, Advance 30, Fire 0, Advance 30, Fire 0,
               Advance 20]
            (start_world
               (ConfigLoader_new
                  \<lparr>maxWaitMsOpt = Some 100, pollIntervalMsOpt = Some 30, configKeyOpt = None\<rparr>)
               Map.empty 0))"

definition stale_timeout_world :: world where
  "stale_timeout_world =
     snd (run [Get ''X'' None, Advance 30, Fire 0, Advance 30, Fire 0, Advance 20,
               Reload, Get ''X'' None, Advance 10, Fire 0, Advance 20, Fire 0,
               Advance 10, Fire 0, Advance 5]
            (start_world
               (ConfigLoader_new
                  \<lparr>maxWaitMsOpt = Some 100, pollIntervalMsOpt = Some 30, configKeyOpt = None\<rparr>)
               Map.empty 0))"

section \<open>Facts about the building blocks\<close>

lemmas eval_defs = default_world_def start_world_def ConfigLoader_new_def get_def
  ConfigLoader_getAll_def loadConfig_def checkConfig_def resolve_def reject_def setTimeout_def
  is_pending_def reload_def fire_def isLoaded_def Let_def await_def get_result_def get_value_def
  options_required_def options_defaultValue_def getAll_result_def read_prop_def
  Object_prototype_def

lemma getEnv_cases:
  "getEnv this g =
     (case g of
        None \<Rightarrow> Inl (NonBrowserEnvironment (configKey this))
      | Some w \<Rightarrow>
          (case w (configKey this) of
             None \<Rightarrow> Inl (WindowConfigNotDefined (configKey this))
           | Some env \<Rightarrow> Inr env))"
  by (simp add: getEnv_def typeof_window_def window_prop_def split: option.splits)

subsection \<open>Property reads\<close>

lemma Object_prototype_members:
  "Object_prototype key = Some v \<Longrightarrow> \<exists>n. v = JObject n"
  by (auto simp add: Object_prototype_def split: if_splits)

lemma read_prop_string_iff: "read_prop env key = JString s \<longleftrightarrow> env key = Some s"
  by (auto simp add: read_prop_def split: option.splits dest: Object_prototype_members)

lemma read_prop_undefined_iff:
  "read_prop env key = JUndefined \<longleftrightarrow> env key = None \<and> Object_prototype key = None"
  by (auto simp add: read_prop_def split: option.splits dest: Object_prototype_members)


lemma falsy_iff: "falsy v \<longleftrightarrow> v = JUndefined \<or> v = JString ''''"
  by (cases v) simp_all

subsection \<open>Promises and what a waiter sees\<close>

lemma is_pending_loader [simp]: "is_pending (w\<lparr>loader := l\<rparr>) p = is_pending w p"
  by (simp add: is_pending_def)

lemma is_pending_timers [simp]: "is_pending (w\<lparr>timers := ts\<rparr>) p = is_pending w p"
  by (simp add: is_pending_def)

lemma is_pending_now [simp]: "is_pending (w\<lparr>now := t\<rparr>) p = is_pending w p"
  by (simp add: is_pending_def)

lemma is_pending_window [simp]: "is_pending (w\<lparr>window := win\<rparr>) p = is_pending w p"
  by (simp add: is_pending_def)

lemma resolve_fields [simp]:
  "loader (resolve p c w) = loader w" "timers (resolve p c w) = timers w"
  "now (resolve p c w) = now w" "window (resolve p c w) = window w"
  "length (promises (resolve p c w)) = length (promises w)"
  by (simp_all add: resolve_def)

lemma reject_fields [simp]:
  "loader (reject p e w) = loader w" "timers (reject p e w) = timers w"
  "now (reject p e w) = now w" "window (reject p e w) = window w"
  "length (promises (reject p e w)) = length (promises w)"
  by (simp_all add: reject_def)

lemma reload_fields [simp]:
  "config (loader (reload w)) = None" "loadingPromise (loader (reload w)) = None"
  "window (reload w) = window w" "configKey' (loader (reload w)) = configKey' (loader w)"
  "promises (reload w) = promises w" "timers (reload w) = timers w" "now (reload w) = now w"
  "maxWaitMs (loader (reload w)) = maxWaitMs (loader w)"
  "pollIntervalMs (loader (reload w)) = pollIntervalMs (loader w)"
  by (simp_all add: reload_def)

lemma is_pending_resolve_other: "q \<noteq> p \<Longrightarrow> is_pending (resolve p c w) q = is_pending w q"
  by (simp add: resolve_def is_pending_def)

lemma is_pending_reject_other: "q \<noteq> p \<Longrightarrow> is_pending (reject p e w) q = is_pending w q"
  by (simp add: reject_def is_pending_def)

lemma await_loader [simp]: "await (w\<lparr>loader := l\<rparr>) a = await w a"
  by (cases a) (simp_all add: await_def)

lemma await_timers [simp]: "await (w\<lparr>timers := ts\<rparr>) a = await w a"
  by (cases a) (simp_all add: await_def)

lemma await_now [simp]: "await (w\<lparr>now := t\<rparr>) a = await w a"
  by (cases a) (simp_all add: await_def)

lemma await_window [simp]: "await (w\<lparr>window := win\<rparr>) a = await w a"
  by (cases a) (simp_all add: await_def)

lemma await_resolve:
  "is_pending w p \<Longrightarrow> await (resolve p c w) (Follow p) = Resolved c"
  by (simp add: await_def resolve_def is_pending_def)

lemma await_reject:
  "is_pending w p \<Longrightarrow> await (reject p e w) (Follow p) = Failed e"
  by (simp add: await_def reject_def is_pending_def)

lemma await_pending:
  "is_pending w p \<Longrightarrow> await w (Follow p) = Waiting"
  by (simp add: await_def is_pending_def split: promise.splits)

lemma await_other_resolve:
  "q \<noteq> p \<Longrightarrow> await (resolve p c w) (Follow q) = await w (Follow q)"
  by (simp add: await_def resolve_def)

lemma await_other_reject:
  "q \<noteq> p \<Longrightarrow> await (reject p e w) (Follow q) = await w (Follow q)"
  by (simp add: await_def reject_def)

lemma get_result_failed:
  "await u a = Failed e \<Longrightarrow> get_result u a key options = Failed e"
  by (simp add: get_result_def)

subsection \<open>The three branches of a check\<close>

lemma checkConfig_truthy:
  "window w (configKey' (loader w)) = Some c \<Longrightarrow>
   checkConfig p st w =
     resolve p c (w\<lparr>loader := (loader w)\<lparr>config := Some c, loadingPromise := None\<rparr>\<rparr>)"
  by (simp add: checkConfig_def)

lemma checkConfig_timeout:
  "window w (configKey' (loader w)) = None \<Longrightarrow> maxWaitMs (loader w) \<le> now w - st \<Longrightarrow>
   checkConfig p st w =
     reject p (LoadTimeout (maxWaitMs (loader w)) (configKey' (loader w)))
       (w\<lparr>loader := (loader w)\<lparr>loadingPromise := None\<rparr>\<rparr>)"
  by (simp add: checkConfig_def)

lemma checkConfig_again:
  "window w (configKey' (loader w)) = None \<Longrightarrow> now w - st < maxWaitMs (loader w) \<Longrightarrow>
   checkConfig p st w =
     w\<lparr>timers := timers w @
        [\<lparr>due = now w + pollIntervalMs (loader w), promiseId = p, startTime = st\<rparr>]\<rparr>"
  by (simp add: checkConfig_def setTimeout_def)

lemma await_other_checkConfig:
  "q \<noteq> p \<Longrightarrow> await (checkConfig p st w) (Follow q) = await w (Follow q)"
  by (simp add: checkConfig_def Let_def setTimeout_def await_other_resolve await_other_reject
      split: option.splits)

lemma fire_due:
  "i < length (timers u) \<Longrightarrow> due (timers u ! i) \<le> now u \<Longrightarrow>
   fire i u = checkConfig (promiseId (timers u ! i)) (startTime (timers u ! i))
                (u\<lparr>timers := take i (timers u) @ drop (Suc i) (timers u)\<rparr>)"
  by (simp add: fire_def Let_def)

lemma fire_no_timers: "timers w = [] \<Longrightarrow> fire i w = w"
  by (simp add: fire_def)

subsection \<open>Calls on a loaded, a waiting and an idle instance\<close>

lemma loadConfig_cached:
  "config (loader w) = Some c \<Longrightarrow> loadConfig w = (Ready c, w)"
  by (simp add: loadConfig_def)

lemma loadConfig_in_flight:
  "config (loader w) = None \<Longrightarrow> loadingPromise (loader w) = Some p \<Longrightarrow>
   loadConfig w = (Follow p, w)"
  by (simp add: loadConfig_def)

lemma loadConfig_idle_absent:
  assumes "config (loader w) = None" "loadingPromise (loader w) = None"
    and "window w (configKey' (loader w)) = None"
  shows "fst (loadConfig w) = Follow (length (promises w))"
    and "config (loader (snd (loadConfig w))) = None"
    and "loadingPromise (loader (snd (loadConfig w))) = Some (length (promises w))"
    and "length (promises (snd (loadConfig w))) = Suc (length (promises w))"
    and "0 < maxWaitMs (loader w) \<Longrightarrow>
           snd (loadConfig w) =
             w\<lparr>loader := (loader w)\<lparr>loadingPromise := Some (length (promises w))\<rparr>,
               promises := promises w @ [Pending],
               timers := timers w @ [\<lparr>due = now w + pollIntervalMs (loader w),
                                      promiseId = length (promises w), startTime = now w\<rparr>]\<rparr>"
  using assms
  by (simp_all add: loadConfig_def checkConfig_def Let_def setTimeout_def reject_def)

lemma exec_call_eq_loadConfig:
  "is_call ev \<Longrightarrow> exec ev w = (Awaits (fst (loadConfig w)), snd (loadConfig w))"
  by (cases ev) (simp_all add: get_def ConfigLoader_getAll_def split_beta)

lemma exec_call_cached:
  "config (loader w) = Some c \<Longrightarrow> is_call ev \<Longrightarrow> exec ev w = (Awaits (Ready c), w)"
  by (simp add: exec_call_eq_loadConfig loadConfig_cached)

lemma exec_call_in_flight:
  "config (loader w) = None \<Longrightarrow> loadingPromise (loader w) = Some p \<Longrightarrow> is_call ev \<Longrightarrow>
   exec ev w = (Awaits (Follow p), w)"
  by (simp add: exec_call_eq_loadConfig loadConfig_in_flight)

lemma run_calls_cached:
  "config (loader w) = Some c \<Longrightarrow> \<forall>ev\<in>set evs. is_call ev \<Longrightarrow>
   run evs w = (replicate (length evs) (Awaits (Ready c)), w)"
  by (induction evs) (simp_all add: exec_call_cached)

lemma run_calls_in_flight:
  "config (loader w) = None \<Longrightarrow> loadingPromise (loader w) = Some p \<Longrightarrow>
   \<forall>ev\<in>set evs. is_call ev \<Longrightarrow>
   run evs w = (replicate (length evs) (Awaits (Follow p)), w)"
  by (induction evs) (simp_all add: exec_call_in_flight)

lemma run_calls_idle_absent:
  assumes idle: "config (loader w) = None" "loadingPromise (loader w) = None"
    and absent: "window w (configKey' (loader w)) = None"
    and calls: "evs \<noteq> []" "\<forall>ev\<in>set evs. is_call ev"
  shows "run evs w =
           (replicate (length evs) (Awaits (Follow (length (promises w)))), snd (loadConfig w))"
proof (cases evs)
  case Nil
  with calls show ?thesis by simp
next
  case (Cons ev rest)
  with calls have ev: "is_call ev" and rest: "\<forall>ev\<in>set rest. is_call ev" by auto
  note first = loadConfig_idle_absent(1-3) [OF idle absent]
  from run_calls_in_flight [OF first(2) first(3) rest]
  show ?thesis
    using Cons first(1) by (simp add: exec_call_eq_loadConfig [OF ev])
qed

subsection \<open>A loaded instance with no check scheduled\<close>

lemma exec_loaded_quiet:
  assumes "config (loader w) = Some c" "timers w = []" "ev \<noteq> Reload"
  shows "loader (snd (exec ev w)) = loader w \<and> promises (snd (exec ev w)) = promises w
         \<and> timers (snd (exec ev w)) = []
         \<and> (is_call ev \<longrightarrow> fst (exec ev w) = Awaits (Ready c))"
  using assms
  by (cases ev) (simp_all add: get_def ConfigLoader_getAll_def loadConfig_cached fire_no_timers)

lemma run_loaded_quiet:
  assumes "config (loader w) = Some c" "timers w = []" "Reload \<notin> set evs"
  shows "loader (snd (run evs w)) = loader w \<and> promises (snd (run evs w)) = promises w
         \<and> timers (snd (run evs w)) = []
         \<and> (\<forall>i<length evs. is_call (evs ! i) \<longrightarrow> fst (run evs w) ! i = Awaits (Ready c))"
  using assms
proof (induction evs arbitrary: w)
  case Nil
  then show ?case by simp
next
  case (Cons ev evs)
  from Cons.prems have ev: "ev \<noteq> Reload" and rest: "Reload \<notin> set evs" by auto
  note step = exec_loaded_quiet [OF Cons.prems(1) Cons.prems(2) ev]
  from step Cons.prems(1) have c1: "config (loader (snd (exec ev w))) = Some c" by simp
  from step have t1: "timers (snd (exec ev w)) = []" by simp
  note ih = Cons.IH [OF c1 t1 rest]
  have "fst (run (ev # evs) w) ! i = Awaits (Ready c)"
    if "i < length (ev # evs)" "is_call ((ev # evs) ! i)" for i
  proof (cases i)
    case 0
    with that step show ?thesis by (simp add: split_beta)
  next
    case (Suc j)
    with that ih show ?thesis by (simp add: split_beta)
  qed
  with step ih show ?case by (simp add: split_beta)
qed

subsection \<open>A loaded instance whose slot keeps its object\<close>

lemma checkConfig_same_slot:
  assumes "config (loader w) = Some c"
    and "window w (configKey' (loader w)) = None \<or> window w (configKey' (loader w)) = Some c"
  shows "config (loader (checkConfig p st w)) = Some c
         \<and> window (checkConfig p st w) = window w
         \<and> configKey' (loader (checkConfig p st w)) = configKey' (loader w)"
  using assms
  by (auto simp add: checkConfig_def Let_def setTimeout_def)

lemma exec_loaded_same_slot:
  assumes c: "config (loader w) = Some c"
    and s: "window w (configKey' (loader w)) = None \<or> window w (configKey' (loader w)) = Some c"
    and ev: "ev \<noteq> Reload" "\<forall>v. ev = SetSlot (configKey' (loader w)) (Some v) \<longrightarrow> v = c"
  shows "config (loader (snd (exec ev w))) = Some c
         \<and> configKey' (loader (snd (exec ev w))) = configKey' (loader w)
         \<and> (window (snd (exec ev w)) (configKey' (loader w)) = None
              \<or> window (snd (exec ev w)) (configKey' (loader w)) = Some c)
         \<and> (is_call ev \<longrightarrow> fst (exec ev w) = Awaits (Ready c))"
proof (cases ev)
  case (Fire i)
  show ?thesis
  proof (cases "i < length (timers w) \<and> due (timers w ! i) \<le> now w")
    case True
    let ?w0 = "w\<lparr>timers := take i (timers w) @ drop (Suc i) (timers w)\<rparr>"
    have "config (loader ?w0) = Some c" using c by simp
    moreover have "window ?w0 (configKey' (loader ?w0)) = None
        \<or> window ?w0 (configKey' (loader ?w0)) = Some c"
      using s by simp
    ultimately have "config (loader (checkConfig (promiseId (timers w ! i)) (startTime (timers w ! i)) ?w0)) = Some c
         \<and> window (checkConfig (promiseId (timers w ! i)) (startTime (timers w ! i)) ?w0) = window ?w0
         \<and> configKey' (loader (checkConfig (promiseId (timers w ! i)) (startTime (timers w ! i)) ?w0))
             = configKey' (loader ?w0)"
      by (rule checkConfig_same_slot)
    with True s Fire show ?thesis by (simp add: fire_due)
  next
    case False
    with c s Fire show ?thesis by (auto simp add: fire_def)
  qed
next
  case (SetSlot k v)
  with c s ev show ?thesis by (cases v) auto
qed (insert c s ev(1), simp_all add: get_def ConfigLoader_getAll_def loadConfig_cached)

lemma run_loaded_same_slot:
  assumes "config (loader w) = Some c"
    and "window w (configKey' (loader w)) = None \<or> window w (configKey' (loader w)) = Some c"
    and "Reload \<notin> set evs"
    and "\<forall>v. SetSlot (configKey' (loader w)) (Some v) \<in> set evs \<longrightarrow> v = c"
  shows "config (loader (snd (run evs w))) = Some c
         \<and> (\<forall>i<length evs. is_call (evs ! i) \<longrightarrow> fst (run evs w) ! i = Awaits (Ready c))"
  using assms
proof (induction evs arbitrary: w)
  case Nil
  then show ?case by simp
next
  case (Cons ev evs)
  from Cons.prems have ev: "ev \<noteq> Reload"
    "\<forall>v. ev = SetSlot (configKey' (loader w)) (Some v) \<longrightarrow> v = c"
    and rest: "Reload \<notin> set evs"
    "\<forall>v. SetSlot (configKey' (loader w)) (Some v) \<in> set evs \<longrightarrow> v = c"
    by auto
  note step = exec_loaded_same_slot [OF Cons.prems(1) Cons.prems(2) ev]
  let ?w1 = "snd (exec ev w)"
  from step have c1: "config (loader ?w1) = Some c"
    and k1: "configKey' (loader ?w1) = configKey' (loader w)" by simp_all
  from step k1 have s1: "window ?w1 (configKey' (loader ?w1)) = None
      \<or> window ?w1 (configKey' (loader ?w1)) = Some c" by simp
  from rest(2) k1 have r1: "\<forall>v. SetSlot (configKey' (loader ?w1)) (Some v) \<in> set evs \<longrightarrow> v = c"
    by simp
  note ih = Cons.IH [OF c1 s1 rest(1) r1]
  have "fst (run (ev # evs) w) ! i = Awaits (Ready c)"
    if "i < length (ev # evs)" "is_call ((ev # evs) ! i)" for i
  proof (cases i)
    case 0
    with that step show ?thesis by (simp add: split_beta)
  next
    case (Suc j)
    with that ih show ?thesis by (simp add: split_beta)
  qed
  with ih show ?case by (simp add: split_beta)
qed

subsection \<open>Without \<open>reload\<close>, at most one poll cycle has a check scheduled\<close>

lemma single_cycle_loadConfig: "single_cycle w \<Longrightarrow> single_cycle (snd (loadConfig w))"
proof (cases "config (loader w)")
  case (Some c)
  assume "single_cycle w"
  with Some show ?thesis by (simp add: loadConfig_cached)
next
  case None
  assume q: "single_cycle w"
  show ?thesis
  proof (cases "loadingPromise (loader w)")
    case (Some p)
    with None q show ?thesis by (simp add: loadConfig_in_flight)
  next
    case lp: None
    with None q have t: "timers w = []" by (simp add: single_cycle_def)
    show ?thesis
      using None lp t
      by (auto simp add: single_cycle_def loadConfig_def Let_def checkConfig_def setTimeout_def
          split: option.splits)
  qed
qed

lemma single_cycle_fire: "single_cycle w \<Longrightarrow> single_cycle (fire i w)"
proof (cases "i < length (timers w) \<and> due (timers w ! i) \<le> now w")
  case False
  assume "single_cycle w"
  with False show ?thesis by (auto simp add: fire_def)
next
  case True
  assume q: "single_cycle w"
  with True have one: "length (timers w) = 1" and i: "i = 0"
    and c: "config (loader w) = None" and lp: "loadingPromise (loader w) \<noteq> None"
    by (auto simp add: single_cycle_def)
  from one have rest: "take i (timers w) @ drop (Suc i) (timers w) = []"
    using i by simp
  show ?thesis
    using True c lp
    by (auto simp add: fire_due rest single_cycle_def checkConfig_def Let_def setTimeout_def
        split: option.splits)
qed

lemma single_cycle_exec: "single_cycle w \<Longrightarrow> ev \<noteq> Reload \<Longrightarrow> single_cycle (snd (exec ev w))"
proof (cases ev)
  case (Get key options)
  assume "single_cycle w"
  then show ?thesis using Get by (simp add: get_def split_beta single_cycle_loadConfig)
next
  case GetAll
  assume "single_cycle w"
  then show ?thesis
    using GetAll by (simp add: ConfigLoader_getAll_def split_beta single_cycle_loadConfig)
next
  case (Fire i)
  assume "single_cycle w"
  then show ?thesis using Fire by (simp add: single_cycle_fire)
qed (simp_all add: single_cycle_def)

lemma single_cycle_run:
  "single_cycle w \<Longrightarrow> Reload \<notin> set evs \<Longrightarrow> single_cycle (snd (run evs w))"
proof (induction evs arbitrary: w)
  case Nil
  then show ?case by simp
next
  case (Cons ev evs)
  from Cons.prems have "ev \<noteq> Reload" and rest: "Reload \<notin> set evs" by auto
  with Cons.prems(1) have "single_cycle (snd (exec ev w))" by (simp add: single_cycle_exec)
  from Cons.IH [OF this rest] show ?case by (simp add: split_beta)
qed

lemma single_cycle_start: "single_cycle (start_world l win t)"
  by (simp add: single_cycle_def start_world_def)

subsection \<open>One wait, one poll loop\<close>

lemma now_checkConfig [simp]: "now (checkConfig p st w) = now w"
  by (simp add: checkConfig_def Let_def setTimeout_def split: option.splits)

lemma now_fire [simp]: "now (fire i w) = now w"
  by (simp add: fire_def Let_def)

lemma now_loadConfig [simp]: "now (snd (loadConfig w)) = now w"
  by (simp add: loadConfig_def Let_def split: option.splits)

lemma now_exec: "now w \<le> now (snd (exec ev w))"
  by (cases ev) (simp_all add: get_def ConfigLoader_getAll_def split_beta reload_def)

lemma now_run: "now w \<le> now (snd (run evs w))"
proof (induction evs arbitrary: w)
  case Nil
  show ?case by simp
next
  case (Cons ev evs)
  have "now w \<le> now (snd (exec ev w))" by (rule now_exec)
  also have "\<dots> \<le> now (snd (run evs (snd (exec ev w))))" by (rule Cons.IH)
  finally show ?case by (simp add: split_beta)
qed

lemma waiting_on_timers:
  "waiting_on p st w \<Longrightarrow> \<exists>d. timers w = [\<lparr>due = d, promiseId = p, startTime = st\<rparr>]"
proof -
  assume "waiting_on p st w"
  then obtain t where "timers w = [t]" "promiseId t = p" "startTime t = st"
    by (auto simp add: waiting_on_def split: list.splits)
  then have "timers w = [\<lparr>due = due t, promiseId = p, startTime = st\<rparr>]" by simp
  then show ?thesis by blast
qed

lemma exec_waiting:
  assumes wt: "waiting_on p st w"
    and ev: "leaves_slot (configKey' (loader w)) ev"
    and time: "now (snd (exec ev w)) - st < maxWaitMs (loader w)"
  shows "waiting_on p st (snd (exec ev w)) \<and> loader (snd (exec ev w)) = loader w
         \<and> length (promises (snd (exec ev w))) = length (promises w)
         \<and> (is_call ev \<longrightarrow> fst (exec ev w) = Awaits (Follow p))"
proof (cases ev)
  case (Get key options)
  with wt show ?thesis
    by (simp add: get_def loadConfig_in_flight waiting_on_def)
next
  case GetAll
  with wt show ?thesis
    by (simp add: ConfigLoader_getAll_def loadConfig_in_flight waiting_on_def)
next
  case IsLoaded
  with wt show ?thesis by simp
next
  case Reload
  with ev show ?thesis by simp
next
  case (SetSlot k v)
  with wt ev show ?thesis by (auto simp add: waiting_on_def)
next
  case (Advance d)
  with wt show ?thesis by (simp add: waiting_on_def)
next
  case (Fire i)
  from wt obtain d where ts: "timers w = [\<lparr>due = d, promiseId = p, startTime = st\<rparr>]"
    by (auto dest: waiting_on_timers)
  show ?thesis
  proof (cases "i < length (timers w) \<and> due (timers w ! i) \<le> now w")
    case False
    with wt Fire show ?thesis by (auto simp add: fire_def)
  next
    case True
    with ts have i: "i = 0" by simp
    from time Fire have lt: "now w - st < maxWaitMs (loader w)" by simp
    from wt have absent: "window w (configKey' (loader w)) = None"
      by (simp add: waiting_on_def)
    have "fire i w = checkConfig p st (w\<lparr>timers := []\<rparr>)"
      using True ts i by (simp add: fire_due)
    also have "\<dots> = w\<lparr>timers := [\<lparr>due = now w + pollIntervalMs (loader w), promiseId = p,
                                   startTime = st\<rparr>]\<rparr>"
      using absent lt by (simp add: checkConfig_again)
    finally show ?thesis using wt Fire by (simp add: waiting_on_def)
  qed
qed

lemma run_waiting:
  assumes "waiting_on p st w"
    and "\<forall>ev\<in>set evs. leaves_slot (configKey' (loader w)) ev"
    and "now (snd (run evs w)) - st < maxWaitMs (loader w)"
  shows "waiting_on p st (snd (run evs w)) \<and> loader (snd (run evs w)) = loader w
         \<and> length (promises (snd (run evs w))) = length (promises w)
         \<and> (\<forall>i<length evs. is_call (evs ! i) \<longrightarrow> fst (run evs w) ! i = Awaits (Follow p))"
  using assms
proof (induction evs arbitrary: w)
  case Nil
  then show ?case by simp
next
  case (Cons ev evs)
  let ?w1 = "snd (exec ev w)"
  from Cons.prems(2) have ev: "leaves_slot (configKey' (loader w)) ev"
    and rest: "\<forall>ev\<in>set evs. leaves_slot (configKey' (loader w)) ev" by simp_all
  have final: "now (snd (run evs ?w1)) - st < maxWaitMs (loader w)"
    using Cons.prems(3) by (simp add: split_beta)
  have "now ?w1 \<le> now (snd (run evs ?w1))" by (rule now_run)
  with final have t1: "now ?w1 - st < maxWaitMs (loader w)" by simp
  note step = exec_waiting [OF Cons.prems(1) ev t1]
  from step have w1: "waiting_on p st ?w1" and l1: "loader ?w1 = loader w" by simp_all
  from rest l1 have r1: "\<forall>ev\<in>set evs. leaves_slot (configKey' (loader ?w1)) ev" by simp
  from final l1 have f1: "now (snd (run evs ?w1)) - st < maxWaitMs (loader ?w1)" by simp
  note ih = Cons.IH [OF w1 r1 f1]
  have "fst (run (ev # evs) w) ! i = Awaits (Follow p)"
    if "i < length (ev # evs)" "is_call ((ev # evs) ! i)" for i
  proof (cases i)
    case 0
    with that step show ?thesis by (simp add: split_beta)
  next
    case (Suc j)
    with that ih show ?thesis by (simp add: split_beta)
  qed
  with step ih l1 show ?case by (simp add: split_beta)
qed

lemma loadConfig_starts_wait:
  assumes "config (loader w) = None" "loadingPromise (loader w) = None"
    and "window w (configKey' (loader w)) = None"
    and "timers w = []" and "0 < maxWaitMs (loader w)"
  shows "waiting_on (length (promises w)) (now w) (snd (loadConfig w))"
  using loadConfig_idle_absent(5) [OF assms(1-3) assms(5)] assms
  by (simp add: waiting_on_def is_pending_def)

lemma run_one_cycle:
  assumes idle: "config (loader w) = None" "loadingPromise (loader w) = None"
    and absent: "window w (configKey' (loader w)) = None"
    and quiet: "timers w = []" and m: "0 < maxWaitMs (loader w)"
    and first: "is_call c0"
    and hist: "\<forall>ev\<in>set hist. leaves_slot (configKey' (loader w)) ev"
    and time: "now (snd (run (c0 # hist) w)) - now w < maxWaitMs (loader w)"
  shows "(\<forall>i<length (c0 # hist). is_call ((c0 # hist) ! i)
            \<longrightarrow> fst (run (c0 # hist) w) ! i = Awaits (Follow (length (promises w))))
         \<and> length (promises (snd (run (c0 # hist) w))) = Suc (length (promises w))
         \<and> is_pending (snd (run (c0 # hist) w)) (length (promises w))
         \<and> map promiseId (timers (snd (run (c0 # hist) w))) = [length (promises w)]"
proof -
  let ?p = "length (promises w)"
  let ?w1 = "snd (loadConfig w)"
  have e: "exec c0 w = (Awaits (Follow ?p), ?w1)"
    using loadConfig_idle_absent(1) [OF idle absent] by (simp add: exec_call_eq_loadConfig [OF first])
  have w1: "waiting_on ?p (now w) ?w1"
    using idle absent quiet m by (rule loadConfig_starts_wait)
  have l1: "loader ?w1 = (loader w)\<lparr>loadingPromise := Some ?p\<rparr>"
    using loadConfig_idle_absent(5) [OF idle absent m] by simp
  have len: "length (promises ?w1) = Suc ?p"
    by (rule loadConfig_idle_absent(4) [OF idle absent])
  from hist l1 have h1: "\<forall>ev\<in>set hist. leaves_slot (configKey' (loader ?w1)) ev" by simp
  from time e l1 have t1: "now (snd (run hist ?w1)) - now w < maxWaitMs (loader ?w1)"
    by (simp add: split_beta)
  note r = run_waiting [OF w1 h1 t1]
  have calls: "fst (run (c0 # hist) w) ! i = Awaits (Follow ?p)"
    if "i < length (c0 # hist)" "is_call ((c0 # hist) ! i)" for i
  proof (cases i)
    case 0
    then show ?thesis by (simp add: e split_beta)
  next
    case (Suc j)
    with that r show ?thesis by (simp add: e split_beta)
  qed
  from r have "waiting_on ?p (now w) (snd (run (c0 # hist) w))"
    and "length (promises (snd (run (c0 # hist) w))) = Suc ?p"
    using len by (simp_all add: e split_beta)
  with calls show ?thesis
    by (auto simp add: waiting_on_def split: list.splits)
qed

lemma idle_never_reloaded:
  assumes "Reload \<notin> set evs"
    and "loadingPromise (loader (snd (run evs (start_world l win t)))) = None"
  shows "timers (snd (run evs (start_world l win t))) = []"
proof -
  from assms(1) have "single_cycle (snd (run evs (start_world l win t)))"
    by (simp add: single_cycle_run single_cycle_start)
  with assms(2) show ?thesis by (simp add: single_cycle_def)
qed

subsection \<open>Every scheduled check belongs to a pending promise\<close>

lemma well_timed_checkConfig:
  assumes wt: "well_timed w" and p: "is_pending w p"
    and new: "p \<notin> promiseId ` set (timers w)"
  shows "well_timed (checkConfig p st w)"
proof (cases "window w (configKey' (loader w))")
  have ne: "promiseId t \<noteq> p" if "t \<in> set (timers w)" for t
    using that new by auto
  case (Some c)
  from wt ne have "\<forall>t\<in>set (timers w). is_pending (resolve p c (w\<lparr>loader := l\<rparr>)) (promiseId t)"
    for l
    by (simp add: well_timed_def is_pending_resolve_other)
  with wt show ?thesis
    by (simp add: checkConfig_truthy [OF Some] well_timed_def)
next
  case None
  show ?thesis
  proof (cases "maxWaitMs (loader w) \<le> now w - st")
    case True
    have ne: "promiseId t \<noteq> p" if "t \<in> set (timers w)" for t
      using that new by auto
    from wt ne have "\<forall>t\<in>set (timers w).
        is_pending (reject p e (w\<lparr>loader := l\<rparr>)) (promiseId t)" for e l
      by (simp add: well_timed_def is_pending_reject_other)
    with wt show ?thesis
      by (simp add: checkConfig_timeout [OF None True] well_timed_def)
  next
    case False
    then have "now w - st < maxWaitMs (loader w)" by simp
    from checkConfig_again [OF None this] wt p new show ?thesis
      by (auto simp add: well_timed_def)
  qed
qed

lemma well_timed_fire: "well_timed w \<Longrightarrow> well_timed (fire i w)"
proof (cases "i < length (timers w) \<and> due (timers w ! i) \<le> now w")
  case False
  assume "well_timed w"
  with False show ?thesis by (auto simp add: fire_def)
next
  case True
  assume wt: "well_timed w"
  let ?ts = "timers w"
  let ?rest = "take i ?ts @ drop (Suc i) ?ts"
  from True have split: "?ts = take i ?ts @ ?ts ! i # drop (Suc i) ?ts"
    by (simp add: id_take_nth_drop)
  from wt have "distinct (map promiseId (take i ?ts @ ?ts ! i # drop (Suc i) ?ts))"
    using split by (simp add: well_timed_def)
  then have d: "distinct (map promiseId ?rest)"
    and new: "promiseId (?ts ! i) \<notin> promiseId ` set ?rest"
    by auto
  have sub: "set ?rest \<subseteq> set ?ts"
    by (auto dest: in_set_takeD in_set_dropD)
  from wt True have p: "is_pending w (promiseId (?ts ! i))"
    by (simp add: well_timed_def)
  from wt sub d have "well_timed (w\<lparr>timers := ?rest\<rparr>)"
    by (auto simp add: well_timed_def)
  moreover from p have "is_pending (w\<lparr>timers := ?rest\<rparr>) (promiseId (?ts ! i))" by simp
  moreover from new have "promiseId (?ts ! i) \<notin> promiseId ` set (timers (w\<lparr>timers := ?rest\<rparr>))"
    by simp
  ultimately have "well_timed (checkConfig (promiseId (?ts ! i)) (startTime (?ts ! i))
      (w\<lparr>timers := ?rest\<rparr>))"
    by (rule well_timed_checkConfig)
  with True show ?thesis by (simp add: fire_due)
qed

lemma well_timed_loader:
  "well_timed w \<Longrightarrow> well_timed (w\<lparr>loader := l\<rparr>)"
  by (simp add: well_timed_def)

lemma well_timed_loadConfig: "well_timed w \<Longrightarrow> well_timed (snd (loadConfig w))"
proof (cases "config (loader w) = None \<and> loadingPromise (loader w) = None")
  case False
  assume "well_timed w"
  with False show ?thesis
    by (auto simp add: loadConfig_def split: option.splits)
next
  case True
  assume wt: "well_timed w"
  let ?p = "length (promises w)"
  let ?w1 = "w\<lparr>promises := promises w @ [Pending]\<rparr>"
  from wt have wt1: "well_timed ?w1"
    by (auto simp add: well_timed_def is_pending_def nth_append)
  have p1: "is_pending ?w1 ?p" by (simp add: is_pending_def)
  from wt have new: "?p \<notin> promiseId ` set (timers ?w1)"
    by (auto simp add: well_timed_def is_pending_def)
  from wt1 p1 new have "well_timed (checkConfig ?p (now ?w1) ?w1)"
    by (rule well_timed_checkConfig)
  then show ?thesis
    using True by (simp add: loadConfig_def Let_def well_timed_loader)
qed

lemma well_timed_exec: "well_timed w \<Longrightarrow> well_timed (snd (exec ev w))"
proof (cases ev)
  case (Get key options)
  assume "well_timed w"
  then show ?thesis using Get by (simp add: get_def split_beta well_timed_loadConfig)
next
  case GetAll
  assume "well_timed w"
  then show ?thesis
    using GetAll by (simp add: ConfigLoader_getAll_def split_beta well_timed_loadConfig)
next
  case (Fire i)
  assume "well_timed w"
  then show ?thesis using Fire by (simp add: well_timed_fire)
qed (simp_all add: well_timed_def reload_def)

lemma well_timed_run: "well_timed w \<Longrightarrow> well_timed (snd (run evs w))"
proof (induction evs arbitrary: w)
  case Nil
  then show ?case by simp
next
  case (Cons ev evs)
  from Cons.prems have "well_timed (snd (exec ev w))" by (rule well_timed_exec)
  from Cons.IH [OF this] show ?case by (simp add: split_beta)
qed

lemma well_timed_start: "well_timed (start_world l win t)"
  by (simp add: well_timed_def start_world_def)

lemma scheduled_checks_pending:
  "i < length (timers (snd (run evs (start_world l win t)))) \<Longrightarrow>
   is_pending (snd (run evs (start_world l win t)))
     (promiseId (timers (snd (run evs (start_world l win t))) ! i))"
  using well_timed_run [OF well_timed_start, of evs l win t]
  by (simp add: well_timed_def)

subsection \<open>A wait on an empty slot ends\<close>

lemma poll_on_no_timers: "timers w = [] \<Longrightarrow> poll_on ds w = w"
  by (cases ds) simp_all

text \<open>
  Each round moves the due time of the next check forward by at least one millisecond,
  so the distance of that due time to the deadline bounds the number of rounds.
\<close>

lemma poll_reaches_timeout:
  assumes "timers w = [t]" and "is_pending w (promiseId t)"
    and "window w (configKey' (loader w)) = None"
    and "0 < pollIntervalMs (loader w)"
    and "nat (maxWaitMs (loader w) - (due t - startTime t)) < length ds"
  shows "await (poll_on ds w) (Follow (promiseId t))
           = Failed (LoadTimeout (maxWaitMs (loader w)) (configKey' (loader w)))
         \<and> timers (poll_on ds w) = []
         \<and> loadingPromise (loader (poll_on ds w)) = None
         \<and> config (loader (poll_on ds w)) = config (loader w)"
  using assms
proof (induction ds arbitrary: w t)
  case Nil
  then show ?case by simp
next
  case (Cons d ds)
  let ?n = "max (now w) (due t) + int d"
  let ?w1 = "w\<lparr>now := ?n\<rparr>"
  have due: "due t \<le> ?n" by simp
  have f: "fire 0 ?w1 = checkConfig (promiseId t) (startTime t) (?w1\<lparr>timers := []\<rparr>)"
    using Cons.prems(1) due by (simp add: fire_due)
  have step: "poll_on (d # ds) w = poll_on ds (fire 0 ?w1)"
    using Cons.prems(1) by simp
  show ?case
  proof (cases "maxWaitMs (loader w) \<le> ?n - startTime t")
    case True
    have u: "fire 0 ?w1 =
        reject (promiseId t) (LoadTimeout (maxWaitMs (loader w)) (configKey' (loader w)))
          (?w1\<lparr>timers := [], loader := (loader w)\<lparr>loadingPromise := None\<rparr>\<rparr>)"
      using True Cons.prems(3) by (simp add: f checkConfig_timeout)
    have "timers (fire 0 ?w1) = []" by (simp add: u)
    then have "poll_on ds (fire 0 ?w1) = fire 0 ?w1" by (rule poll_on_no_timers)
    with step have "poll_on (d # ds) w = fire 0 ?w1" by simp
    then show ?thesis using Cons.prems(2) by (simp add: u await_reject)
  next
    case False
    then have lt: "?n - startTime t < maxWaitMs (loader w)" by simp
    let ?t' = "\<lparr>due = ?n + pollIntervalMs (loader w), promiseId = promiseId t,
                 startTime = startTime t\<rparr>"
    have u: "fire 0 ?w1 = ?w1\<lparr>timers := [?t']\<rparr>"
      using lt Cons.prems(3) by (simp add: f checkConfig_again)
    have m: "nat (maxWaitMs (loader (fire 0 ?w1)) - (due ?t' - startTime ?t')) < length ds"
      using Cons.prems(4,5) lt due by (simp add: u)
    have ih: "await (poll_on ds (fire 0 ?w1)) (Follow (promiseId ?t'))
           = Failed (LoadTimeout (maxWaitMs (loader (fire 0 ?w1))) (configKey' (loader (fire 0 ?w1))))
         \<and> timers (poll_on ds (fire 0 ?w1)) = []
         \<and> loadingPromise (loader (poll_on ds (fire 0 ?w1))) = None
         \<and> config (loader (poll_on ds (fire 0 ?w1))) = config (loader (fire 0 ?w1))"
    proof (rule Cons.IH)
      show "timers (fire 0 ?w1) = [?t']" by (simp add: u)
      show "is_pending (fire 0 ?w1) (promiseId ?t')" using Cons.prems(2) by (simp add: u)
      show "window (fire 0 ?w1) (configKey' (loader (fire 0 ?w1))) = None"
        using Cons.prems(3) by (simp add: u)
      show "0 < pollIntervalMs (loader (fire 0 ?w1))" using Cons.prems(4) by (simp add: u)
      show "nat (maxWaitMs (loader (fire 0 ?w1)) - (due ?t' - startTime ?t')) < length ds"
        by (rule m)
    qed
    moreover have "loader (fire 0 ?w1) = loader w" by (simp add: u)
    ultimately show ?thesis unfolding step by simp
  qed
qed

subsection \<open>The example histories, evaluated\<close>

lemma loaded_world_eq:
  "loaded_world =
     \<lparr>loader = \<lparr>config = Some [''A'' \<mapsto> ''1'', ''E'' \<mapsto> ''''], loadingPromise = Some 0,
                 maxWaitMs = 10000, pollIntervalMs = 50, configKey' = ''ENV''\<rparr>,
      window = [''ENV'' \<mapsto> [''A'' \<mapsto> ''1'', ''E'' \<mapsto> '''']], now = 0,
      promises = [Fulfilled [''A'' \<mapsto> ''1'', ''E'' \<mapsto> '''']], timers = []\<rparr>"
  by (simp add: loaded_world_def eval_defs)

lemma orphan_world_eq:
  "orphan_world =
     \<lparr>loader = \<lparr>config = None, loadingPromise = Some 1, maxWaitMs = 10000, pollIntervalMs = 50,
                 configKey' = ''ENV''\<rparr>,
      window = [''ENV'' \<mapsto> [''X'' \<mapsto> ''1'']], now = 50, promises = [Pending, Pending],
      timers = [\<lparr>due = 50, promiseId = 0, startTime = 0\<rparr>,
                \<lparr>due = 50, promiseId = 1, startTime = 0\<rparr>]\<rparr>"
  by (simp add: orphan_world_def eval_defs)

lemma cached_world_eq:
  "cached_world =
     \<lparr>loader = \<lparr>config = Some [''X'' \<mapsto> ''1''], loadingPromise = Some 1, maxWaitMs = 10000,
                 pollIntervalMs = 50, configKey' = ''ENV''\<rparr>,
      window = [''ENV'' \<mapsto> [''X'' \<mapsto> ''1'']], now = 0,
      promises = [Pending, Fulfilled [''X'' \<mapsto> ''1'']],
      timers = [\<lparr>due = 50, promiseId = 0, startTime = 0\<rparr>]\<rparr>"
  by (simp add: cached_world_def eval_defs)

lemma late_slot_world_eq:
  "late_slot_world =
     \<lparr>loader = \<lparr>config = None, loadingPromise = Some 0, maxWaitMs = 100,
                 pollIntervalMs = 30, configKey' = ''ENV''\<rparr>,
      window = Map.empty, now = 110, promises = [Pending],
      timers = [\<lparr>due = 120, promiseId = 0, startTime = 0\<rparr>]\<rparr>"
  by (simp add: late_slot_world_def eval_defs)

lemma run_snd_append: "snd (run (xs @ ys) w) = snd (run ys (snd (run xs w)))"
  by (induction xs arbitrary: w) (simp_all add: split_beta)

lemma stale_timeout_world_eq:
  "stale_timeout_world =
     \<lparr>loader = \<lparr>config = None, loadingPromise = None, maxWaitMs = 100,
                 pollIntervalMs = 30, configKey' = ''ENV''\<rparr>,
      window = Map.empty, now = 125,
      promises = [Rejected (LoadTimeout 100 ''ENV''), Pending],
      timers = [\<lparr>due = 140, promiseId = 1, startTime = 80\<rparr>]\<rparr>"
proof -
  let ?w0 = "start_world
               (ConfigLoader_new
                  \<lparr>maxWaitMsOpt = Some 100, pollIntervalMsOpt = Some 30, configKeyOpt = None\<rparr>)
               Map.empty 0"
  let ?a = "\<lparr>loader = \<lparr>config = None, loadingPromise = Some 0, maxWaitMs = 100,
                 pollIntervalMs = 30, configKey' = ''ENV''\<rparr>,
      window = Map.empty, now = 80, promises = [Pending],
      timers = [\<lparr>due = 90, promiseId = 0, startTime = 0\<rparr>]\<rparr>"
  let ?b = "\<lparr>loader = \<lparr>config = None, loadingPromise = Some 1, maxWaitMs = 100,
                 pollIntervalMs = 30, configKey' = ''ENV''\<rparr>,
      window = Map.empty, now = 110, promises = [Pending, Pending],
      timers = [\<lparr>due = 120, promiseId = 0, startTime = 0\<rparr>,
                \<lparr>due = 140, promiseId = 1, startTime = 80\<rparr>]\<rparr>"
  have a: "snd (run [Get ''X'' None, Advance 30, Fire 0, Advance 30, Fire 0, Advance 20] ?w0) = ?a"
    by (simp add: eval_defs)
  have b: "snd (run [Reload, Get ''X'' None, Advance 10, Fire 0, Advance 20, Fire 0] ?a) = ?b"
    by (simp add: eval_defs)
  have c: "snd (run [Advance 10, Fire 0, Advance 5] ?b) =
     \<lparr>loader = \<lparr>config = None, loadingPromise = None, maxWaitMs = 100,
                 pollIntervalMs = 30, configKey' = ''ENV''\<rparr>,
      window = Map.empty, now = 125,
      promises = [Rejected (LoadTimeout 100 ''ENV''), Pending],
      timers = [\<lparr>due = 140, promiseId = 1, startTime = 80\<rparr>]\<rparr>"
    by (simp add: eval_defs)
  have "stale_timeout_world =
      snd (run ([Get ''X'' None, Advance 30, Fire 0, Advance 30, Fire 0, Advance 20]
                @ [Reload, Get ''X'' None, Advance 10, Fire 0, Advance 20, Fire 0]
                @ [Advance 10, Fire 0, Advance 5]) ?w0)"
    by (simp only: stale_timeout_world_def append.simps)
  then show ?thesis by (simp only: run_snd_append a b c)
qed

section \<open>The synchronous accessor\<close>

text \<open>
  C1, as the code has it. With the slot resolved to \<open>env\<close>, \<open>getBoolean\<close> returns true when
  the value of the key is exactly the string \<open>true\<close>, and the default value for every other
  value (\<open>false\<close>, \<open>1\<close>, the empty string, an absent key). So it returns true if and only if
  the value is \<open>true\<close> or the default is true; with the default \<open>false\<close>, as in the call with
  one argument, exactly when the value is \<open>true\<close>.
\<close>

theorem getBoolean_value_or_default:
  assumes "g = Some w" and "w (configKey this) = Some env"
  shows "getBoolean this g key dflt = Inr (if env key = Some ''true'' then True else dflt)
       \<and> (getBoolean this g key False = Inr True \<longleftrightarrow> env key = Some ''true'')
       \<and> getBoolean0 this g key = Inr (env key = Some ''true'')"
proof -
  from assms have env: "getEnv this g = Inr env" by (simp add: getEnv_cases)
  have own: "read_prop env key = JString ''true'' \<longleftrightarrow> env key = Some ''true''"
    by (rule read_prop_string_iff)
  have "getBoolean this g key d = Inr (env key = Some ''true'' \<or> d)" for d
  proof (cases "falsy (read_prop env key)")
    case True
    then have "read_prop env key \<noteq> JString ''true''" by (auto simp add: falsy_iff)
    with own env True show ?thesis by (simp add: getBoolean_def getOptional_def Let_def)
  next
    case False
    with own env show ?thesis by (simp add: getBoolean_def getOptional_def Let_def)
  qed
  then show ?thesis by (simp add: getBoolean0_def)
qed

theorem getBoolean_value_or_default_witness:
  "getBoolean (Config_new None)
     (Some [''ENV'' \<mapsto> [''DEBUG'' \<mapsto> ''true'', ''V'' \<mapsto> ''1'']]) ''DEBUG'' False = Inr True
   \<and> getBoolean (Config_new None)
     (Some [''ENV'' \<mapsto> [''DEBUG'' \<mapsto> ''true'', ''V'' \<mapsto> ''1'']]) ''V'' False = Inr False
   \<and> getBoolean (Config_new None)
     (Some [''ENV'' \<mapsto> [''DEBUG'' \<mapsto> ''true'', ''V'' \<mapsto> ''1'']]) ''V'' True = Inr True"
  using
    getBoolean_value_or_default [of "Some [''ENV'' \<mapsto> [''DEBUG'' \<mapsto> ''true'', ''V'' \<mapsto> ''1'']]"
      "[''ENV'' \<mapsto> [''DEBUG'' \<mapsto> ''true'', ''V'' \<mapsto> ''1'']]" "Config_new None"
      "[''DEBUG'' \<mapsto> ''true'', ''V'' \<mapsto> ''1'']" "''DEBUG''" False]
    getBoolean_value_or_default [of "Some [''ENV'' \<mapsto> [''DEBUG'' \<mapsto> ''true'', ''V'' \<mapsto> ''1'']]"
      "[''ENV'' \<mapsto> [''DEBUG'' \<mapsto> ''true'', ''V'' \<mapsto> ''1'']]" "Config_new None"
      "[''DEBUG'' \<mapsto> ''true'', ''V'' \<mapsto> ''1'']" "''V''" False]
    getBoolean_value_or_default [of "Some [''ENV'' \<mapsto> [''DEBUG'' \<mapsto> ''true'', ''V'' \<mapsto> ''1'']]"
      "[''ENV'' \<mapsto> [''DEBUG'' \<mapsto> ''true'', ''V'' \<mapsto> ''1'']]" "Config_new None"
      "[''DEBUG'' \<mapsto> ''true'', ''V'' \<mapsto> ''1'']" "''V''" True]
  by (simp add: Config_new_def)

text \<open>
  C1 as it is stated fails where the default is true: with the slot holding
  \<open>DEBUG = false\<close>, \<open>getBoolean(DEBUG, true)\<close> returns true although the value is not
  the string \<open>true\<close>.
\<close>

theorem getBoolean_true_iff_counterexample:
  "getBoolean (Config_new None) (Some [''ENV'' \<mapsto> [''DEBUG'' \<mapsto> ''false'']]) ''DEBUG'' True
     = Inr True
   \<and> [''DEBUG'' \<mapsto> ''false''] ''DEBUG'' = Some ''false''"
  by (simp add: getBoolean_def getOptional_def getEnv_cases Config_new_def Let_def read_prop_def)




text \<open>
  C8. \<open>isAvailable\<close> raises in no environment, not even where reading \<^verbatim>\<open>window\<close> would
  raise, and it answers true exactly when a global object exists and the slot holds a
  (truthy) configuration object.
\<close>

theorem isAvailable_total:
  "isAvailable this g = Inr (\<exists>w env. g = Some w \<and> w (configKey this) = Some env)"
  by (auto simp add: isAvailable_def typeof_window_def window_prop_def truthy_def
      split: option.splits)

section \<open>Reading a key through the loader\<close>




text \<open>
  C10. On a loaded instance a \<open>get\<close> that fails with a MissingRequiredKey error was a
  required read of an absent or empty key, and the call has changed nothing: the world
  after it is the world before it, the cache still holds the same object, \<open>isLoaded\<close> is
  true, and any further \<open>get\<close> and \<open>getAll\<close> calls are answered with the cached object
  while the world, its promises and timers included, stays as it is.
\<close>

theorem required_failure_keeps_cache:
  assumes loaded: "config (loader w) = Some c"
    and fail: "get_result (snd (get key options w)) (fst (get key options w)) key options = Failed e"
    and k: "kind e = MissingRequiredKey"
  shows "options_required options \<and> (c key = None \<or> c key = Some '''')
     \<and> snd (get key options w) = w
     \<and> config (loader (snd (get key options w))) = Some c
     \<and> isLoaded (snd (get key options w))
     \<and> (\<forall>evs. (\<forall>ev\<in>set evs. is_call ev) \<longrightarrow>
          run evs (snd (get key options w)) = (replicate (length evs) (Awaits (Ready c)), w))"
proof -
  have g: "get key options w = (Ready c, w)"
    using loaded by (simp add: get_def loadConfig_cached)
  from fail have "get_result w (Ready c) key options = Failed e" by (simp add: g)
  then have "options_required options
      \<and> (read_prop c key = JUndefined \<or> read_prop c key = JString '''')"
    by (auto simp add: get_result_def await_def get_value_def Let_def split: if_splits)
  then have "options_required options \<and> (c key = None \<or> c key = Some '''')"
    by (auto simp add: read_prop_undefined_iff read_prop_string_iff)
  moreover have "run evs w = (replicate (length evs) (Awaits (Ready c)), w)"
    if "\<forall>ev\<in>set evs. is_call ev" for evs
    using loaded that by (rule run_calls_cached)
  ultimately show ?thesis using loaded by (simp add: g isLoaded_def)
qed

theorem required_failure_keeps_cache_witness:
  "config (loader loaded_world) = Some [''A'' \<mapsto> ''1'', ''E'' \<mapsto> '''']
   \<and> get_result
        (snd (get ''B'' (Some \<lparr>required = Some True, defaultValue = None\<rparr>) loaded_world))
        (fst (get ''B'' (Some \<lparr>required = Some True, defaultValue = None\<rparr>) loaded_world))
        ''B'' (Some \<lparr>required = Some True, defaultValue = None\<rparr>)
      = Failed (RequiredMissing ''B'' ''ENV'')
   \<and> isLoaded (snd (get ''B'' (Some \<lparr>required = Some True, defaultValue = None\<rparr>) loaded_world))
   \<and> run [GetAll, Get ''A'' None]
        (snd (get ''B'' (Some \<lparr>required = Some True, defaultValue = None\<rparr>) loaded_world))
      = ([Awaits (Ready [''A'' \<mapsto> ''1'', ''E'' \<mapsto> '''']),
          Awaits (Ready [''A'' \<mapsto> ''1'', ''E'' \<mapsto> ''''])], loaded_world)"
proof -
  let ?o = "Some \<lparr>required = Some True, defaultValue = None\<rparr>"
  have h1: "config (loader loaded_world) = Some [''A'' \<mapsto> ''1'', ''E'' \<mapsto> '''']"
    by (simp add: loaded_world_eq)
  have h2: "get_result (snd (get ''B'' ?o loaded_world)) (fst (get ''B'' ?o loaded_world))
              ''B'' ?o = Failed (RequiredMissing ''B'' ''ENV'')"
    by (simp add: loaded_world_eq eval_defs)
  have h3: "kind (RequiredMissing ''B'' ''ENV'') = MissingRequiredKey" by simp
  have c: "\<forall>ev\<in>set [GetAll, Get ''A'' None]. is_call ev" by simp
  from required_failure_keeps_cache [OF h1 h2 h3] have
    "isLoaded (snd (get ''B'' ?o loaded_world))"
    and "\<forall>evs. (\<forall>ev\<in>set evs. is_call ev) \<longrightarrow>
          run evs (snd (get ''B'' ?o loaded_world))
            = (replicate (length evs) (Awaits (Ready [''A'' \<mapsto> ''1'', ''E'' \<mapsto> ''''])), loaded_world)"
    by blast+
  with c h1 h2 show ?thesis
    by (metis (no_types, lifting) length_Cons list.size(3) replicate_0 replicate_Suc)
qed

section \<open>The polling check\<close>

text \<open>
  C6. A check of a pending promise looks at the slot first. If the slot holds an object,
  the instance is loaded with it, the in-flight reference is cleared and the promise is
  resolved with it, whatever the elapsed time, and no further check is scheduled. If the
  slot is empty and the elapsed time has reached \<open>maxWaitMs\<close>, the promise is rejected with
  the time-out error; the promise is rejected in no other case. Otherwise nothing changes
  but one new timer, due \<open>pollIntervalMs\<close> from now, and that timer runs the same check
  again once that time has passed, and not before. Every check that any history of an
  instance leaves scheduled is a check of a pending promise, as the first check of a
  new promise is.
\<close>

theorem checkConfig_slot_before_deadline:
  assumes pend: "is_pending w p"
  shows
    "(\<forall>c. window w (configKey' (loader w)) = Some c \<longrightarrow>
        config (loader (checkConfig p st w)) = Some c
        \<and> loadingPromise (loader (checkConfig p st w)) = None
        \<and> await (checkConfig p st w) (Follow p) = Resolved c
        \<and> timers (checkConfig p st w) = timers w)
     \<and> (window w (configKey' (loader w)) = None \<and> maxWaitMs (loader w) \<le> now w - st \<longrightarrow>
        await (checkConfig p st w) (Follow p)
          = Failed (LoadTimeout (maxWaitMs (loader w)) (configKey' (loader w)))
        \<and> loadingPromise (loader (checkConfig p st w)) = None
        \<and> config (loader (checkConfig p st w)) = config (loader w)
        \<and> timers (checkConfig p st w) = timers w)
     \<and> (window w (configKey' (loader w)) = None \<and> now w - st < maxWaitMs (loader w) \<longrightarrow>
        checkConfig p st w =
          w\<lparr>timers := timers w @
             [\<lparr>due = now w + pollIntervalMs (loader w), promiseId = p, startTime = st\<rparr>]\<rparr>
        \<and> await (checkConfig p st w) (Follow p) = Waiting
        \<and> (\<forall>d. pollIntervalMs (loader w) \<le> d \<longrightarrow>
              fire (length (timers w)) ((checkConfig p st w)\<lparr>now := now w + d\<rparr>)
                = checkConfig p st (w\<lparr>now := now w + d\<rparr>))
        \<and> (\<forall>d. d < pollIntervalMs (loader w) \<longrightarrow>
              fire (length (timers w)) ((checkConfig p st w)\<lparr>now := now w + d\<rparr>)
                = (checkConfig p st w)\<lparr>now := now w + d\<rparr>))
     \<and> ((\<exists>e. await (checkConfig p st w) (Follow p) = Failed e)
          \<longleftrightarrow> window w (configKey' (loader w)) = None \<and> maxWaitMs (loader w) \<le> now w - st)
     \<and> (\<forall>i<length (timers (snd (run evs (start_world l win t)))).
          is_pending (snd (run evs (start_world l win t)))
            (promiseId (timers (snd (run evs (start_world l win t))) ! i)))
     \<and> is_pending (w\<lparr>promises := promises w @ [Pending]\<rparr>) (length (promises w))"
proof -
  have truthy_case: "config (loader (checkConfig p st w)) = Some c
        \<and> loadingPromise (loader (checkConfig p st w)) = None
        \<and> await (checkConfig p st w) (Follow p) = Resolved c
        \<and> timers (checkConfig p st w) = timers w"
    if "window w (configKey' (loader w)) = Some c" for c
    using that pend by (simp add: checkConfig_truthy await_resolve)
  have timeout_case: "await (checkConfig p st w) (Follow p)
          = Failed (LoadTimeout (maxWaitMs (loader w)) (configKey' (loader w)))
        \<and> loadingPromise (loader (checkConfig p st w)) = None
        \<and> config (loader (checkConfig p st w)) = config (loader w)
        \<and> timers (checkConfig p st w) = timers w"
    if "window w (configKey' (loader w)) = None" "maxWaitMs (loader w) \<le> now w - st"
    using that pend by (simp add: checkConfig_timeout await_reject)
  have again_case: "checkConfig p st w =
          w\<lparr>timers := timers w @
             [\<lparr>due = now w + pollIntervalMs (loader w), promiseId = p, startTime = st\<rparr>]\<rparr>
        \<and> await (checkConfig p st w) (Follow p) = Waiting
        \<and> (\<forall>d. pollIntervalMs (loader w) \<le> d \<longrightarrow>
              fire (length (timers w)) ((checkConfig p st w)\<lparr>now := now w + d\<rparr>)
                = checkConfig p st (w\<lparr>now := now w + d\<rparr>))
        \<and> (\<forall>d. d < pollIntervalMs (loader w) \<longrightarrow>
              fire (length (timers w)) ((checkConfig p st w)\<lparr>now := now w + d\<rparr>)
                = (checkConfig p st w)\<lparr>now := now w + d\<rparr>)"
    if "window w (configKey' (loader w)) = None" "now w - st < maxWaitMs (loader w)"
    using that pend by (simp add: checkConfig_again await_pending fire_def Let_def)
  have reject_iff: "(\<exists>e. await (checkConfig p st w) (Follow p) = Failed e)
          \<longleftrightarrow> window w (configKey' (loader w)) = None \<and> maxWaitMs (loader w) \<le> now w - st"
  proof (cases "window w (configKey' (loader w))")
    case (Some c)
    with truthy_case [OF Some] show ?thesis by simp
  next
    case None
    show ?thesis
    proof (cases "maxWaitMs (loader w) \<le> now w - st")
      case True
      with timeout_case [OF None True] None show ?thesis by simp
    next
      case False
      then have "now w - st < maxWaitMs (loader w)" by simp
      from again_case [OF None this] have "await (checkConfig p st w) (Follow p) = Waiting"
        by blast
      with None False show ?thesis by simp
    qed
  qed
  have scheduled: "\<forall>i<length (timers (snd (run evs (start_world l win t)))).
          is_pending (snd (run evs (start_world l win t)))
            (promiseId (timers (snd (run evs (start_world l win t))) ! i))"
    by (simp add: scheduled_checks_pending)
  have fresh: "is_pending (w\<lparr>promises := promises w @ [Pending]\<rparr>) (length (promises w))"
    by (simp add: is_pending_def)
  from truthy_case timeout_case again_case reject_iff scheduled fresh show ?thesis by blast
qed

theorem checkConfig_slot_before_deadline_witness:
  "is_pending
     \<lparr>loader = ConfigLoader_new \<lparr>maxWaitMsOpt = None, pollIntervalMsOpt = None, configKeyOpt = None\<rparr>,
      window = [''ENV'' \<mapsto> [''A'' \<mapsto> ''1'']], now = 20000, promises = [Pending], timers = []\<rparr> 0
   \<and> await (checkConfig 0 0
       \<lparr>loader = ConfigLoader_new \<lparr>maxWaitMsOpt = None, pollIntervalMsOpt = None, configKeyOpt = None\<rparr>,
        window = [''ENV'' \<mapsto> [''A'' \<mapsto> ''1'']], now = 20000, promises = [Pending], timers = []\<rparr>)
       (Follow 0) = Resolved [''A'' \<mapsto> ''1'']"
proof -
  have h: "is_pending
     \<lparr>loader = ConfigLoader_new \<lparr>maxWaitMsOpt = None, pollIntervalMsOpt = None, configKeyOpt = None\<rparr>,
      window = [''ENV'' \<mapsto> [''A'' \<mapsto> ''1'']], now = 20000, promises = [Pending], timers = []\<rparr> 0"
    by (simp add: is_pending_def)
  note th = checkConfig_slot_before_deadline [OF h, of 0]
  from th [THEN conjunct1] h show ?thesis
    by (simp add: ConfigLoader_new_def)
qed

section \<open>Coalescing of concurrent calls\<close>

text \<open>
  C4, as the code has it. On an idle instance with the slot empty, any number of \<open>get\<close>
  and \<open>getAll\<close> calls made one after the other all await the one promise that the first
  of them creates: after them there is one promise more than before, the world is what
  the first call alone left, and while \<open>maxWaitMs\<close> is positive exactly one check has been
  scheduled. Whenever the cache is empty and that promise is the in-flight one, a call
  attaches to it and changes nothing. And once a check of that promise finds an object
  in the slot, be it the scheduled check firing after the host has set the slot or any
  later one, every one of the calls resolves with that object. Where the idle instance
  has no check scheduled, as is always so while \<open>reload\<close> has never been called on it, the
  calls may also be spread over the wait: in every history that begins with a call,
  goes on with calls, time passing and timers firing, puts no object in the slot, has no
  \<open>reload\<close> and ends before \<open>maxWaitMs\<close> has elapsed, every call awaits that one promise,
  one promise has been created, and the only check scheduled at the end is a check of
  that promise, still pending.
\<close>

theorem calls_coalesce:
  assumes idle: "config (loader w) = None" "loadingPromise (loader w) = None"
    and absent: "window w (configKey' (loader w)) = None"
    and calls: "evs \<noteq> []" "\<forall>ev\<in>set evs. is_call ev"
  shows
    "fst (run evs w) = replicate (length evs) (Awaits (Follow (length (promises w))))
     \<and> snd (run evs w) = snd (loadConfig w)
     \<and> length (promises (snd (run evs w))) = Suc (length (promises w))
     \<and> loadingPromise (loader (snd (run evs w))) = Some (length (promises w))
     \<and> (0 < maxWaitMs (loader w) \<longrightarrow>
          is_pending (snd (run evs w)) (length (promises w))
          \<and> timers (snd (run evs w)) =
              timers w @ [\<lparr>due = now w + pollIntervalMs (loader w),
                           promiseId = length (promises w), startTime = now w\<rparr>])
     \<and> (\<forall>u. config (loader u) = None \<and> loadingPromise (loader u) = Some (length (promises w))
            \<longrightarrow> loadConfig u = (Follow (length (promises w)), u))
     \<and> (\<forall>u st c. is_pending u (length (promises w))
            \<and> window u (configKey' (loader u)) = Some c
            \<longrightarrow> (\<forall>r\<in>set (fst (run evs w)).
                   \<exists>a. r = Awaits a \<and> await (checkConfig (length (promises w)) st u) a = Resolved c))
     \<and> (\<forall>c d. 0 < maxWaitMs (loader w) \<and> pollIntervalMs (loader w) \<le> int d
            \<longrightarrow> (\<forall>r\<in>set (fst (run evs w)).
                   \<exists>a. r = Awaits a
                     \<and> await (snd (run [SetSlot (configKey' (loader w)) (Some c), Advance d,
                                        Fire (length (timers w))]
                                   (snd (run evs w)))) a = Resolved c))
     \<and> (timers w = [] \<and> 0 < maxWaitMs (loader w) \<and> is_call c0
          \<and> (\<forall>ev\<in>set hist. leaves_slot (configKey' (loader w)) ev)
          \<and> now (snd (run (c0 # hist) w)) - now w < maxWaitMs (loader w)
        \<longrightarrow> (\<forall>i<length (c0 # hist). is_call ((c0 # hist) ! i)
               \<longrightarrow> fst (run (c0 # hist) w) ! i = Awaits (Follow (length (promises w))))
            \<and> length (promises (snd (run (c0 # hist) w))) = Suc (length (promises w))
            \<and> is_pending (snd (run (c0 # hist) w)) (length (promises w))
            \<and> map promiseId (timers (snd (run (c0 # hist) w))) = [length (promises w)])
     \<and> (Reload \<notin> set evs0
          \<and> loadingPromise (loader (snd (run evs0 (start_world l win t)))) = None
        \<longrightarrow> timers (snd (run evs0 (start_world l win t))) = [])"
proof -
  have spread: "(\<forall>i<length (c0 # hist). is_call ((c0 # hist) ! i)
               \<longrightarrow> fst (run (c0 # hist) w) ! i = Awaits (Follow (length (promises w))))
            \<and> length (promises (snd (run (c0 # hist) w))) = Suc (length (promises w))
            \<and> is_pending (snd (run (c0 # hist) w)) (length (promises w))
            \<and> map promiseId (timers (snd (run (c0 # hist) w))) = [length (promises w)]"
    if "timers w = [] \<and> 0 < maxWaitMs (loader w) \<and> is_call c0
          \<and> (\<forall>ev\<in>set hist. leaves_slot (configKey' (loader w)) ev)
          \<and> now (snd (run (c0 # hist) w)) - now w < maxWaitMs (loader w)"
    using that by (intro run_one_cycle [OF idle absent]) simp_all
  have never_reloaded: "timers (snd (run evs0 (start_world l win t))) = []"
    if "Reload \<notin> set evs0
          \<and> loadingPromise (loader (snd (run evs0 (start_world l win t)))) = None"
    using that by (intro idle_never_reloaded) simp_all
  note r = run_calls_idle_absent [OF idle absent calls]
  note first = loadConfig_idle_absent [OF idle absent]
  have a: "fst (run evs w) = replicate (length evs) (Awaits (Follow (length (promises w))))"
    and b: "snd (run evs w) = snd (loadConfig w)"
    using r by simp_all
  have c: "length (promises (snd (run evs w))) = Suc (length (promises w))"
    and d: "loadingPromise (loader (snd (run evs w))) = Some (length (promises w))"
    using b first(3,4) by simp_all
  have e: "is_pending (snd (run evs w)) (length (promises w))
          \<and> timers (snd (run evs w)) =
              timers w @ [\<lparr>due = now w + pollIntervalMs (loader w),
                           promiseId = length (promises w), startTime = now w\<rparr>]"
    if "0 < maxWaitMs (loader w)"
    using b first(5) [OF that] by (simp add: is_pending_def)
  have f: "loadConfig u = (Follow (length (promises w)), u)"
    if "config (loader u) = None \<and> loadingPromise (loader u) = Some (length (promises w))" for u
    using that by (simp add: loadConfig_in_flight)
  have g: "\<forall>r\<in>set (fst (run evs w)).
             \<exists>a. r = Awaits a \<and> await (checkConfig (length (promises w)) st u) a = Resolved c"
    if "is_pending u (length (promises w)) \<and> window u (configKey' (loader u)) = Some c"
    for u st c
    using that a by (simp add: checkConfig_truthy await_resolve)
  have h: "\<forall>r\<in>set (fst (run evs w)).
             \<exists>a. r = Awaits a
               \<and> await (snd (run [SetSlot (configKey' (loader w)) (Some c), Advance d,
                                   Fire (length (timers w))]
                              (snd (run evs w)))) a = Resolved c"
    if "0 < maxWaitMs (loader w) \<and> pollIntervalMs (loader w) \<le> int d" for c d
  proof -
    from that have m: "0 < maxWaitMs (loader w)" and dd: "pollIntervalMs (loader w) \<le> int d"
      by simp_all
    have "await (snd (run [SetSlot (configKey' (loader w)) (Some c), Advance d,
                                   Fire (length (timers w))]
                              (snd (run evs w)))) (Follow (length (promises w))) = Resolved c"
      using dd by (simp add: b first(5) [OF m] fire_def Let_def checkConfig_def
          resolve_def is_pending_def await_def)
    with a show ?thesis by simp
  qed
  have first_part: "fst (run evs w) = replicate (length evs) (Awaits (Follow (length (promises w))))
     \<and> snd (run evs w) = snd (loadConfig w)
     \<and> length (promises (snd (run evs w))) = Suc (length (promises w))
     \<and> loadingPromise (loader (snd (run evs w))) = Some (length (promises w))
     \<and> (0 < maxWaitMs (loader w) \<longrightarrow>
          is_pending (snd (run evs w)) (length (promises w))
          \<and> timers (snd (run evs w)) =
              timers w @ [\<lparr>due = now w + pollIntervalMs (loader w),
                           promiseId = length (promises w), startTime = now w\<rparr>])
     \<and> (\<forall>u. config (loader u) = None \<and> loadingPromise (loader u) = Some (length (promises w))
            \<longrightarrow> loadConfig u = (Follow (length (promises w)), u))
     \<and> (\<forall>u st c. is_pending u (length (promises w))
            \<and> window u (configKey' (loader u)) = Some c
            \<longrightarrow> (\<forall>r\<in>set (fst (run evs w)).
                   \<exists>a. r = Awaits a \<and> await (checkConfig (length (promises w)) st u) a = Resolved c))
     \<and> (\<forall>c d. 0 < maxWaitMs (loader w) \<and> pollIntervalMs (loader w) \<le> int d
            \<longrightarrow> (\<forall>r\<in>set (fst (run evs w)).
                   \<exists>a. r = Awaits a
                     \<and> await (snd (run [SetSlot (configKey' (loader w)) (Some c), Advance d,
                                        Fire (length (timers w))]
                                   (snd (run evs w)))) a = Resolved c))"
    using a b c d e f g h by blast
  have second_part: "(timers w = [] \<and> 0 < maxWaitMs (loader w) \<and> is_call c0
          \<and> (\<forall>ev\<in>set hist. leaves_slot (configKey' (loader w)) ev)
          \<and> now (snd (run (c0 # hist) w)) - now w < maxWaitMs (loader w)
        \<longrightarrow> (\<forall>i<length (c0 # hist). is_call ((c0 # hist) ! i)
               \<longrightarrow> fst (run (c0 # hist) w) ! i = Awaits (Follow (length (promises w))))
            \<and> length (promises (snd (run (c0 # hist) w))) = Suc (length (promises w))
            \<and> is_pending (snd (run (c0 # hist) w)) (length (promises w))
            \<and> map promiseId (timers (snd (run (c0 # hist) w))) = [length (promises w)])"
    using spread by (intro impI)
  have third_part: "Reload \<notin> set evs0
          \<and> loadingPromise (loader (snd (run evs0 (start_world l win t)))) = None
        \<longrightarrow> timers (snd (run evs0 (start_world l win t))) = []"
    using never_reloaded by (intro impI)
  from first_part second_part third_part show ?thesis
    by (elim conjE, intro conjI) assumption+
qed

theorem calls_coalesce_witness:
  "config (loader (default_world Map.empty)) = None
   \<and> loadingPromise (loader (default_world Map.empty)) = None
   \<and> window (default_world Map.empty) (configKey' (loader (default_world Map.empty))) = None
   \<and> fst (run [Get ''A'' None, GetAll, Get ''B'' None] (default_world Map.empty))
       = [Awaits (Follow 0), Awaits (Follow 0), Awaits (Follow 0)]
   \<and> length (promises (snd (run [Get ''A'' None, GetAll, Get ''B'' None]
                                 (default_world Map.empty)))) = 1
   \<and> length (timers (snd (run [Get ''A'' None, GetAll, Get ''B'' None]
                                 (default_world Map.empty)))) = 1
   \<and> fst (run [Get ''A'' None, Advance 50, Fire 0, GetAll, Advance 50, Fire 0, Get ''B'' None]
           (default_world Map.empty)) ! 6 = Awaits (Follow 0)
   \<and> length (promises
         (snd (run [Get ''A'' None, Advance 50, Fire 0, GetAll, Advance 50, Fire 0, Get ''B'' None]
                 (default_world Map.empty)))) = 1
   \<and> timers (snd (run [GetAll, Advance 10000, Fire 0] (start_world
         (ConfigLoader_new \<lparr>maxWaitMsOpt = None, pollIntervalMsOpt = None, configKeyOpt = None\<rparr>)
         Map.empty 0))) = []"
proof -
  let ?w = "default_world Map.empty"
  let ?c0 = "Get ''A'' None"
  let ?hist = "[Advance 50, Fire 0, GetAll, Advance 50, Fire 0, Get ''B'' None]"
  let ?l = "ConfigLoader_new \<lparr>maxWaitMsOpt = None, pollIntervalMsOpt = None, configKeyOpt = None\<rparr>"
  have h1: "config (loader ?w) = None"
    and h2: "loadingPromise (loader ?w) = None"
    and h3: "window ?w (configKey' (loader ?w)) = None"
    and m: "0 < maxWaitMs (loader ?w)"
    and p: "promises ?w = []"
    and t: "timers ?w = []"
    and k: "configKey' (loader ?w) = ''ENV''"
    and n: "now ?w = 0" and mw: "maxWaitMs (loader ?w) = 10000"
    by (simp_all add: default_world_def start_world_def ConfigLoader_new_def)
  have h4: "[Get ''A'' None, GetAll, Get ''B'' None] \<noteq> []" by simp
  have h5: "\<forall>ev\<in>set [Get ''A'' None, GetAll, Get ''B'' None]. is_call ev" by simp
  have time: "now (snd (run (?c0 # ?hist) ?w)) = 100"
    by (simp add: eval_defs)
  have idle_again: "loadingPromise (loader (snd (run [GetAll, Advance 10000, Fire 0]
      (start_world ?l Map.empty 0)))) = None"
    by (simp add: eval_defs)
  note th = calls_coalesce [OF h1 h2 h3 h4 h5, of ?c0 ?hist "[GetAll, Advance 10000, Fire 0]"
      ?l Map.empty 0]
  note a = th [THEN conjunct1]
  note c = th [THEN conjunct2, THEN conjunct2, THEN conjunct1]
  note e = th [THEN conjunct2, THEN conjunct2, THEN conjunct2, THEN conjunct2, THEN conjunct1]
  note spread = th [THEN conjunct2, THEN conjunct2, THEN conjunct2, THEN conjunct2,
      THEN conjunct2, THEN conjunct2, THEN conjunct2, THEN conjunct2, THEN conjunct1]
  note never = th [THEN conjunct2, THEN conjunct2, THEN conjunct2, THEN conjunct2,
      THEN conjunct2, THEN conjunct2, THEN conjunct2, THEN conjunct2, THEN conjunct2]
  have hyp: "timers ?w = [] \<and> 0 < maxWaitMs (loader ?w) \<and> is_call ?c0
          \<and> (\<forall>ev\<in>set ?hist. leaves_slot (configKey' (loader ?w)) ev)
          \<and> now (snd (run (?c0 # ?hist) ?w)) - now ?w < maxWaitMs (loader ?w)"
    unfolding time n mw k using t by simp
  note s = spread [rule_format, OF hyp]
  have six: "fst (run (?c0 # ?hist) ?w) ! 6 = Awaits (Follow (length (promises ?w)))"
    by (rule s [THEN conjunct1, rule_format, of 6]) simp_all
  have one: "length (promises (snd (run (?c0 # ?hist) ?w))) = Suc (length (promises ?w))"
    by (rule s [THEN conjunct2, THEN conjunct1])
  have none: "timers (snd (run [GetAll, Advance 10000, Fire 0] (start_world ?l Map.empty 0))) = []"
    by (rule never [rule_format], rule conjI, simp, rule idle_again)
  from a c e m h1 h2 h3 have
    "fst (run [Get ''A'' None, GetAll, Get ''B'' None] ?w)
       = [Awaits (Follow 0), Awaits (Follow 0), Awaits (Follow 0)]
     \<and> length (promises (snd (run [Get ''A'' None, GetAll, Get ''B'' None] ?w))) = 1
     \<and> length (timers (snd (run [Get ''A'' None, GetAll, Get ''B'' None] ?w))) = 1"
    by (simp del: run.simps add: p t numeral_3_eq_3)
  moreover from six have "fst (run (?c0 # ?hist) ?w) ! 6 = Awaits (Follow 0)"
    by (simp only: p list.size)
  moreover from one have "length (promises (snd (run (?c0 # ?hist) ?w))) = 1"
    by (simp only: p list.size One_nat_def)
  ultimately show ?thesis using h1 h2 h3 none by blast
qed

text \<open>
  C4 as it is stated fails on an instance that was reloaded during a wait. With
  \<open>maxWaitMs = 100\<close> and \<open>pollIntervalMs = 30\<close>, a first \<open>get\<close> at 0 starts a wait that
  \<open>reload\<close> abandons at 80, where a second \<open>get\<close> starts the wait on promise 1. Every timer
  fires when it is due; at 120 the check of the abandoned wait times out and clears the
  in-flight reference. At 125 the slot has never been set, promise 1 is pending and its
  check is scheduled, but a further \<open>get\<close> does not attach to it: it creates promise 2 and
  schedules a second check beside the first.
\<close>

theorem second_poll_loop_counterexample:
  "window stale_timeout_world ''ENV'' = None
   \<and> is_pending stale_timeout_world 1
   \<and> map promiseId (timers stale_timeout_world) = [1]
   \<and> loadingPromise (loader stale_timeout_world) = None
   \<and> fst (get ''X'' None stale_timeout_world) = Follow 2
   \<and> map promiseId (timers (snd (get ''X'' None stale_timeout_world))) = [1, 2]"
  by (simp add: stale_timeout_world_eq eval_defs)

section \<open>Time-out\<close>

text \<open>
  C5, as the code has it. When a scheduled check runs with the slot still empty and the
  elapsed time at \<open>maxWaitMs\<close> or beyond, the promise of that load attempt is rejected with
  the time-out error carrying \<open>maxWaitMs\<close> and the slot key, so every \<open>get\<close> and \<open>getAll\<close>
  that awaits this promise fails with that error; the check clears the in-flight
  reference and the cache stays empty, and the next call after \<open>reload\<close> creates a new
  promise and runs a first check of its own, starting at that moment. Such a check is
  reached: on an instance with no check pending, a positive \<open>maxWaitMs\<close> and a positive
  \<open>pollIntervalMs\<close>, a call on an empty slot followed by enough rounds of the event loop
  with the slot left untouched, each timer firing when due or later, ends with the
  awaited promise rejected with the time-out error and the instance idle.
\<close>

theorem timeout_rejects_waiters:
  "(i < length (timers w) \<and> due (timers w ! i) \<le> now w
      \<and> is_pending w (promiseId (timers w ! i))
      \<and> config (loader w) = None
      \<and> window w (configKey' (loader w)) = None
      \<and> maxWaitMs (loader w) \<le> now w - startTime (timers w ! i)
    \<longrightarrow>
      (\<forall>key options. get_result (fire i w) (Follow (promiseId (timers w ! i))) key options
           = Failed (LoadTimeout (maxWaitMs (loader w)) (configKey' (loader w))))
      \<and> getAll_result (fire i w) (Follow (promiseId (timers w ! i)))
           = Failed (LoadTimeout (maxWaitMs (loader w)) (configKey' (loader w)))
      \<and> kind (LoadTimeout (maxWaitMs (loader w)) (configKey' (loader w))) = ConfigLoadTimeout
      \<and> loadingPromise (loader (fire i w)) = None
      \<and> config (loader (fire i w)) = None
      \<and> fst (loadConfig (reload (fire i w))) = Follow (length (promises w))
      \<and> length (promises w) \<noteq> promiseId (timers w ! i)
      \<and> length (promises (snd (loadConfig (reload (fire i w))))) = Suc (length (promises w))
      \<and> (0 < maxWaitMs (loader w) \<longrightarrow>
            timers (snd (loadConfig (reload (fire i w)))) =
              timers (fire i w) @ [\<lparr>due = now w + pollIntervalMs (loader w),
                                     promiseId = length (promises w), startTime = now w\<rparr>]))
   \<and> (config (loader v) = None \<and> loadingPromise (loader v) = None \<and> timers v = []
      \<and> window v (configKey' (loader v)) = None
      \<and> 0 < maxWaitMs (loader v) \<and> 0 < pollIntervalMs (loader v)
      \<and> nat (maxWaitMs (loader v) - pollIntervalMs (loader v)) < length ds
    \<longrightarrow>
      await (poll_on ds (snd (loadConfig v))) (fst (loadConfig v))
        = Failed (LoadTimeout (maxWaitMs (loader v)) (configKey' (loader v)))
      \<and> loadingPromise (loader (poll_on ds (snd (loadConfig v)))) = None
      \<and> config (loader (poll_on ds (snd (loadConfig v)))) = None
      \<and> timers (poll_on ds (snd (loadConfig v))) = [])"
proof (intro conjI impI)
  assume a: "i < length (timers w) \<and> due (timers w ! i) \<le> now w
      \<and> is_pending w (promiseId (timers w ! i))
      \<and> config (loader w) = None
      \<and> window w (configKey' (loader w)) = None
      \<and> maxWaitMs (loader w) \<le> now w - startTime (timers w ! i)"
  let ?p = "promiseId (timers w ! i)"
  let ?e = "LoadTimeout (maxWaitMs (loader w)) (configKey' (loader w))"
  let ?w0 = "w\<lparr>timers := take i (timers w) @ drop (Suc i) (timers w)\<rparr>"
  have f: "fire i w = reject ?p ?e (?w0\<lparr>loader := (loader w)\<lparr>loadingPromise := None\<rparr>\<rparr>)"
    using a by (simp add: fire_due checkConfig_timeout)
  have aw: "await (fire i w) (Follow ?p) = Failed ?e"
    using a by (simp add: f await_reject)
  show "\<forall>key options. get_result (fire i w) (Follow ?p) key options = Failed ?e"
    using aw by (simp add: get_result_failed)
  show "getAll_result (fire i w) (Follow ?p) = Failed ?e"
    using aw by (simp add: getAll_result_def)
  show "kind ?e = ConfigLoadTimeout" by simp
  show lp: "loadingPromise (loader (fire i w)) = None" by (simp add: f)
  show cf: "config (loader (fire i w)) = None" using a by (simp add: f)
  have len: "length (promises (fire i w)) = length (promises w)" by (simp add: f)
  have win: "window (reload (fire i w)) (configKey' (loader (reload (fire i w)))) = None"
    using a by (simp add: f)
  note fresh = loadConfig_idle_absent [OF reload_fields(1) reload_fields(2) win]
  show "fst (loadConfig (reload (fire i w))) = Follow (length (promises w))"
    using fresh(1) len by simp
  show "length (promises w) \<noteq> ?p" using a by (auto simp add: is_pending_def)
  show "length (promises (snd (loadConfig (reload (fire i w))))) = Suc (length (promises w))"
    using fresh(4) len by simp
  show "timers (snd (loadConfig (reload (fire i w)))) =
              timers (fire i w) @ [\<lparr>due = now w + pollIntervalMs (loader w),
                                     promiseId = length (promises w), startTime = now w\<rparr>]"
    if "0 < maxWaitMs (loader w)"
  proof -
    from that have "0 < maxWaitMs (loader (reload (fire i w)))" by (simp add: f)
    from fresh(5) [OF this] show ?thesis by (simp add: len) (simp add: f)
  qed
next
  assume b: "config (loader v) = None \<and> loadingPromise (loader v) = None \<and> timers v = []
      \<and> window v (configKey' (loader v)) = None
      \<and> 0 < maxWaitMs (loader v) \<and> 0 < pollIntervalMs (loader v)
      \<and> nat (maxWaitMs (loader v) - pollIntervalMs (loader v)) < length ds"
  let ?p = "length (promises v)"
  let ?t = "\<lparr>due = now v + pollIntervalMs (loader v), promiseId = ?p, startTime = now v\<rparr>"
  from b have idle: "config (loader v) = None" "loadingPromise (loader v) = None"
    and absent: "window v (configKey' (loader v)) = None" and m: "0 < maxWaitMs (loader v)"
    by simp_all
  note first = loadConfig_idle_absent [OF idle absent]
  have s: "snd (loadConfig v) =
      v\<lparr>loader := (loader v)\<lparr>loadingPromise := Some ?p\<rparr>,
        promises := promises v @ [Pending], timers := [?t]\<rparr>"
    using first(5) [OF m] b by simp
  have live: "await (poll_on ds (snd (loadConfig v))) (Follow (promiseId ?t))
           = Failed (LoadTimeout (maxWaitMs (loader (snd (loadConfig v))))
                       (configKey' (loader (snd (loadConfig v)))))
         \<and> timers (poll_on ds (snd (loadConfig v))) = []
         \<and> loadingPromise (loader (poll_on ds (snd (loadConfig v)))) = None
         \<and> config (loader (poll_on ds (snd (loadConfig v)))) = config (loader (snd (loadConfig v)))"
  proof (rule poll_reaches_timeout)
    show "timers (snd (loadConfig v)) = [?t]" by (simp add: s)
    show "is_pending (snd (loadConfig v)) (promiseId ?t)" by (simp add: s is_pending_def)
    show "window (snd (loadConfig v)) (configKey' (loader (snd (loadConfig v)))) = None"
      using absent by (simp add: s)
    show "0 < pollIntervalMs (loader (snd (loadConfig v)))" using b by (simp add: s)
    show "nat (maxWaitMs (loader (snd (loadConfig v))) - (due ?t - startTime ?t)) < length ds"
      using b by (simp add: s)
  qed
  have l: "maxWaitMs (loader (snd (loadConfig v))) = maxWaitMs (loader v)"
    "configKey' (loader (snd (loadConfig v))) = configKey' (loader v)"
    "config (loader (snd (loadConfig v))) = None"
    using idle by (simp_all add: s)
  show "await (poll_on ds (snd (loadConfig v))) (fst (loadConfig v))
        = Failed (LoadTimeout (maxWaitMs (loader v)) (configKey' (loader v)))"
    using live first(1) l by simp
  show "loadingPromise (loader (poll_on ds (snd (loadConfig v)))) = None"
    using live by simp
  show "config (loader (poll_on ds (snd (loadConfig v)))) = None"
    using live l by simp
  show "timers (poll_on ds (snd (loadConfig v))) = []"
    using live by simp
qed

text \<open>
  The first check of a new promise runs inside \<^verbatim>\<open>new Promise\<close>, before the promise is
  assigned to \<^verbatim>\<open>this.loadingPromise\<close>. With \<open>maxWaitMs = 0\<close> that check already times out, and
  the assignment then stores the rejected promise: the in-flight reference is set, not
  cleared, and later calls follow the rejected promise until \<open>reload\<close>. The theorem above
  speaks of scheduled checks only.
\<close>

lemma immediate_timeout_keeps_reference:
  "loadingPromise (loader (snd (loadConfig
     (start_world
        (ConfigLoader_new \<lparr>maxWaitMsOpt = Some 0, pollIntervalMsOpt = None, configKeyOpt = None\<rparr>)
        Map.empty 0)))) = Some 0
   \<and> await (snd (loadConfig
     (start_world
        (ConfigLoader_new \<lparr>maxWaitMsOpt = Some 0, pollIntervalMsOpt = None, configKeyOpt = None\<rparr>)
        Map.empty 0))) (Follow 0) = Failed (LoadTimeout 0 ''ENV'')"
  by (simp add: eval_defs)

theorem timeout_rejects_waiters_witness:
  "get_result
     (fire 0 (snd (run [Get ''X'' None, Advance 10000] (default_world Map.empty))))
     (Follow 0) ''X'' None = Failed (LoadTimeout 10000 ''ENV'')
   \<and> loadingPromise (loader
        (fire 0 (snd (run [Get ''X'' None, Advance 10000] (default_world Map.empty))))) = None
   \<and> await (poll_on (replicate 9951 0) (snd (loadConfig (default_world Map.empty))))
        (fst (loadConfig (default_world Map.empty))) = Failed (LoadTimeout 10000 ''ENV'')"
proof -
  let ?w = "snd (run [Get ''X'' None, Advance 10000] (default_world Map.empty))"
  have w: "?w =
     \<lparr>loader = \<lparr>config = None, loadingPromise = Some 0, maxWaitMs = 10000,
                 pollIntervalMs = 50, configKey' = ''ENV''\<rparr>,
      window = Map.empty, now = 10000, promises = [Pending],
      timers = [\<lparr>due = 50, promiseId = 0, startTime = 0\<rparr>]\<rparr>"
    by (simp add: eval_defs)
  have h: "0 < length (timers ?w) \<and> due (timers ?w ! 0) \<le> now ?w
      \<and> is_pending ?w (promiseId (timers ?w ! 0))
      \<and> config (loader ?w) = None
      \<and> window ?w (configKey' (loader ?w)) = None
      \<and> maxWaitMs (loader ?w) \<le> now ?w - startTime (timers ?w ! 0)"
    unfolding w by (simp add: is_pending_def)
  let ?v = "default_world Map.empty"
  have v: "config (loader ?v) = None \<and> loadingPromise (loader ?v) = None \<and> timers ?v = []
      \<and> window ?v (configKey' (loader ?v)) = None
      \<and> 0 < maxWaitMs (loader ?v) \<and> 0 < pollIntervalMs (loader ?v)
      \<and> nat (maxWaitMs (loader ?v) - pollIntervalMs (loader ?v)) < length (replicate 9951 (0::nat))"
    by (simp add: default_world_def start_world_def ConfigLoader_new_def)
  have ms: "maxWaitMs (loader ?w) = 10000" "configKey' (loader ?w) = ''ENV''"
    "promiseId (timers ?w ! 0) = 0"
    unfolding w by simp_all
  have vs: "maxWaitMs (loader ?v) = 10000" "configKey' (loader ?v) = ''ENV''"
    by (simp_all add: default_world_def start_world_def ConfigLoader_new_def)
  from timeout_rejects_waiters [of 0 ?w ?v "replicate 9951 0"] h v
  show ?thesis unfolding ms vs by blast
qed

text \<open>
  C5 as it is stated fails when the slot is set after \<open>maxWaitMs\<close> has passed and before
  the next check runs. With \<open>maxWaitMs = 100\<close> and \<open>pollIntervalMs = 30\<close> the checks run at
  0, 30, 60, 90 and 120 milliseconds; at 110 the slot has never been set, the host sets it
  then, and the check at 120 resolves the waiting \<open>get\<close> instead of rejecting it.
\<close>

theorem late_slot_counterexample:
  "window late_slot_world ''ENV'' = None
   \<and> now late_slot_world = 110
   \<and> maxWaitMs (loader late_slot_world) = 100
   \<and> loadingPromise (loader late_slot_world) = Some 0
   \<and> get_result
        (snd (run [SetSlot ''ENV'' (Some [''X'' \<mapsto> ''1'']), Advance 10, Fire 0] late_slot_world))
        (Follow 0) ''X'' None = Resolved (JString ''1'')"
  by (simp add: late_slot_world_eq eval_defs)

section \<open>The cache\<close>

text \<open>
  C3, as the code has it. On an instance whose cache holds \<open>c\<close> and on which no check is
  scheduled, every history without \<open>reload\<close> (calls, the host rewriting or clearing the
  slot, time passing, timers) leaves the instance, the promises and the empty timer list
  as they are, and answers each \<open>get\<close> and \<open>getAll\<close> with \<open>c\<close> itself, already resolved,
  whatever the slot holds then. An instance on which \<open>reload\<close> was never called has no
  check scheduled whenever its cache is populated. And where checks are still scheduled,
  the same holds of the cache and of the answers as long as the host puts no other
  object than \<open>c\<close> in the slot.
\<close>

theorem cached_object_stable:
  "(config (loader w) = Some c \<and> timers w = [] \<and> Reload \<notin> set evs
    \<longrightarrow> config (loader (snd (run evs w))) = Some c
        \<and> loader (snd (run evs w)) = loader w
        \<and> promises (snd (run evs w)) = promises w
        \<and> timers (snd (run evs w)) = []
        \<and> (\<forall>i<length evs. is_call (evs ! i) \<longrightarrow> fst (run evs w) ! i = Awaits (Ready c))
        \<and> (\<forall>u. await u (Ready c) = Resolved c))
   \<and> (Reload \<notin> set evs0
        \<and> config (loader (snd (run evs0 (start_world (ConfigLoader_new options) win t)))) \<noteq> None
    \<longrightarrow> timers (snd (run evs0 (start_world (ConfigLoader_new options) win t))) = [])
   \<and> (config (loader w) = Some c
        \<and> (window w (configKey' (loader w)) = None \<or> window w (configKey' (loader w)) = Some c)
        \<and> Reload \<notin> set evs
        \<and> (\<forall>v. SetSlot (configKey' (loader w)) (Some v) \<in> set evs \<longrightarrow> v = c)
    \<longrightarrow> config (loader (snd (run evs w))) = Some c
        \<and> (\<forall>i<length evs. is_call (evs ! i) \<longrightarrow> fst (run evs w) ! i = Awaits (Ready c)))"
proof -
  have quiet: "config (loader (snd (run evs w))) = Some c
        \<and> loader (snd (run evs w)) = loader w
        \<and> promises (snd (run evs w)) = promises w
        \<and> timers (snd (run evs w)) = []
        \<and> (\<forall>i<length evs. is_call (evs ! i) \<longrightarrow> fst (run evs w) ! i = Awaits (Ready c))
        \<and> (\<forall>u. await u (Ready c) = Resolved c)"
    if a: "config (loader w) = Some c \<and> timers w = [] \<and> Reload \<notin> set evs"
  proof -
    from a have "loader (snd (run evs w)) = loader w \<and> promises (snd (run evs w)) = promises w
         \<and> timers (snd (run evs w)) = []
         \<and> (\<forall>i<length evs. is_call (evs ! i) \<longrightarrow> fst (run evs w) ! i = Awaits (Ready c))"
      by (simp add: run_loaded_quiet)
    moreover have "\<forall>u. await u (Ready c) = Resolved c" by (simp add: await_def)
    ultimately show ?thesis using a by simp
  qed
  have never_reloaded:
    "timers (snd (run evs0 (start_world (ConfigLoader_new options) win t))) = []"
    if b: "Reload \<notin> set evs0
        \<and> config (loader (snd (run evs0 (start_world (ConfigLoader_new options) win t)))) \<noteq> None"
  proof -
    from b have "single_cycle (snd (run evs0 (start_world (ConfigLoader_new options) win t)))"
      by (simp add: single_cycle_run single_cycle_start)
    with b show ?thesis by (auto simp add: single_cycle_def)
  qed
  have same_slot: "config (loader (snd (run evs w))) = Some c
        \<and> (\<forall>i<length evs. is_call (evs ! i) \<longrightarrow> fst (run evs w) ! i = Awaits (Ready c))"
    if "config (loader w) = Some c
        \<and> (window w (configKey' (loader w)) = None \<or> window w (configKey' (loader w)) = Some c)
        \<and> Reload \<notin> set evs
        \<and> (\<forall>v. SetSlot (configKey' (loader w)) (Some v) \<in> set evs \<longrightarrow> v = c)"
    using that by (intro run_loaded_same_slot) simp_all
  from quiet never_reloaded same_slot show ?thesis by blast
qed

theorem cached_object_stable_witness:
  "config (loader loaded_world) = Some [''A'' \<mapsto> ''1'', ''E'' \<mapsto> ''''] \<and> timers loaded_world = []
   \<and> fst (run [GetAll, SetSlot ''ENV'' None, Advance 10, Fire 0, Get ''A'' None] loaded_world) ! 4
       = Awaits (Ready [''A'' \<mapsto> ''1'', ''E'' \<mapsto> ''''])
   \<and> timers (snd (run [GetAll]
        (start_world
           (ConfigLoader_new \<lparr>maxWaitMsOpt = None, pollIntervalMsOpt = None, configKeyOpt = None\<rparr>)
           [''ENV'' \<mapsto> [''A'' \<mapsto> ''1'', ''E'' \<mapsto> '''']] 0))) = []
   \<and> timers cached_world \<noteq> []
   \<and> fst (run [Advance 50, Fire 0, Get ''X'' None] cached_world) ! 2
       = Awaits (Ready [''X'' \<mapsto> ''1''])"
proof -
  have h: "config (loader loaded_world) = Some [''A'' \<mapsto> ''1'', ''E'' \<mapsto> '''']
           \<and> timers loaded_world = []
           \<and> Reload \<notin> set [GetAll, SetSlot ''ENV'' None, Advance 10, Fire 0, Get ''A'' None]"
    by (simp add: loaded_world_eq)
  have h2: "Reload \<notin> set [GetAll]
        \<and> config (loader (snd (run [GetAll]
            (start_world
              (ConfigLoader_new \<lparr>maxWaitMsOpt = None, pollIntervalMsOpt = None, configKeyOpt = None\<rparr>)
              [''ENV'' \<mapsto> [''A'' \<mapsto> ''1'', ''E'' \<mapsto> '''']] 0)))) \<noteq> None"
    using loaded_world_eq by (simp add: loaded_world_def default_world_def)
  have h3: "config (loader cached_world) = Some [''X'' \<mapsto> ''1'']
        \<and> (window cached_world (configKey' (loader cached_world)) = None
            \<or> window cached_world (configKey' (loader cached_world)) = Some [''X'' \<mapsto> ''1''])
        \<and> Reload \<notin> set [Advance 50, Fire 0, Get ''X'' None]
        \<and> (\<forall>v. SetSlot (configKey' (loader cached_world)) (Some v)
                  \<in> set [Advance 50, Fire 0, Get ''X'' None] \<longrightarrow> v = [''X'' \<mapsto> ''1''])"
    and t3: "timers cached_world \<noteq> []"
    by (simp_all add: cached_world_eq)
  note first = cached_object_stable [of loaded_world "[''A'' \<mapsto> ''1'', ''E'' \<mapsto> '''']"
      "[GetAll, SetSlot ''ENV'' None, Advance 10, Fire 0, Get ''A'' None]" "[GetAll]"
      "\<lparr>maxWaitMsOpt = None, pollIntervalMsOpt = None, configKeyOpt = None\<rparr>"
      "[''ENV'' \<mapsto> [''A'' \<mapsto> ''1'', ''E'' \<mapsto> '''']]" 0]
  note second = cached_object_stable [of cached_world "[''X'' \<mapsto> ''1'']"
      "[Advance 50, Fire 0, Get ''X'' None]" "[]"
      "\<lparr>maxWaitMsOpt = None, pollIntervalMsOpt = None, configKeyOpt = None\<rparr>" Map.empty 0]
  from first h h2 have
    "fst (run [GetAll, SetSlot ''ENV'' None, Advance 10, Fire 0, Get ''A'' None] loaded_world) ! 4
       = Awaits (Ready [''A'' \<mapsto> ''1'', ''E'' \<mapsto> ''''])"
    and "timers (snd (run [GetAll]
        (start_world
           (ConfigLoader_new \<lparr>maxWaitMsOpt = None, pollIntervalMsOpt = None, configKeyOpt = None\<rparr>)
           [''ENV'' \<mapsto> [''A'' \<mapsto> ''1'', ''E'' \<mapsto> '''']] 0))) = []"
    by simp_all
  moreover from second [THEN conjunct2, THEN conjunct2] h3 have
    "fst (run [Advance 50, Fire 0, Get ''X'' None] cached_world) ! 2
       = Awaits (Ready [''X'' \<mapsto> ''1''])"
    by (simp del: run.simps)
  ultimately show ?thesis using h t3 by blast
qed

text \<open>
  C3 as it is stated fails on an instance that was reloaded during a wait. Its second
  \<open>get\<close> finds the slot set and caches \<open>X = 1\<close>, while the check of the abandoned wait is
  still scheduled. The host then replaces the slot by \<open>X = 2\<close>; the old check fires and
  stores that object in the cache. No \<open>reload\<close> has happened since the cache was populated,
  yet the next \<open>get\<close> answers from another object than the one before.
\<close>

theorem cached_object_replaced_counterexample:
  "config (loader cached_world) = Some [''X'' \<mapsto> ''1'']
   \<and> get_result cached_world (fst (get ''X'' None cached_world)) ''X'' None = Resolved (JString ''1'')
   \<and> Reload \<notin> set [SetSlot ''ENV'' (Some [''X'' \<mapsto> ''2'']), Advance 50, Fire 0]
   \<and> get_result
        (snd (run [SetSlot ''ENV'' (Some [''X'' \<mapsto> ''2'']), Advance 50, Fire 0] cached_world))
        (fst (get ''X'' None
           (snd (run [SetSlot ''ENV'' (Some [''X'' \<mapsto> ''2'']), Advance 50, Fire 0] cached_world))))
        ''X'' None = Resolved (JString ''2'')"
  by (simp add: cached_world_eq eval_defs)

section \<open>A check left behind by \<open>reload\<close>\<close>

text \<open>
  C9, as the code has it. A scheduled check that fires acts on the instance as it is
  then, whether or not its promise is still the in-flight one. If it finds an object in
  the slot it stores it in the cache, clears the in-flight reference and resolves its
  own promise. If it finds the slot empty with its own deadline passed it clears the
  in-flight reference, leaves the cache as it is and rejects its own promise. Only if it
  finds the slot empty before its deadline does it leave the instance and all promises
  untouched, and schedule itself again. In no case does it settle another promise than
  its own: the promise of a later cycle stays as it was.
\<close>

theorem orphan_check_effect:
  assumes "i < length (timers w)" and "due (timers w ! i) \<le> now w"
  shows
    "(\<forall>c. window w (configKey' (loader w)) = Some c \<longrightarrow>
        config (loader (fire i w)) = Some c
        \<and> loadingPromise (loader (fire i w)) = None
        \<and> (is_pending w (promiseId (timers w ! i))
             \<longrightarrow> await (fire i w) (Follow (promiseId (timers w ! i))) = Resolved c))
     \<and> (window w (configKey' (loader w)) = None
          \<and> maxWaitMs (loader w) \<le> now w - startTime (timers w ! i) \<longrightarrow>
        config (loader (fire i w)) = config (loader w)
        \<and> loadingPromise (loader (fire i w)) = None
        \<and> (is_pending w (promiseId (timers w ! i))
             \<longrightarrow> await (fire i w) (Follow (promiseId (timers w ! i)))
                  = Failed (LoadTimeout (maxWaitMs (loader w)) (configKey' (loader w)))))
     \<and> (window w (configKey' (loader w)) = None
          \<and> now w - startTime (timers w ! i) < maxWaitMs (loader w) \<longrightarrow>
        loader (fire i w) = loader w \<and> promises (fire i w) = promises w
        \<and> timers (fire i w) =
            take i (timers w) @ drop (Suc i) (timers w) @
            [\<lparr>due = now w + pollIntervalMs (loader w), promiseId = promiseId (timers w ! i),
              startTime = startTime (timers w ! i)\<rparr>])
     \<and> (\<forall>q. q \<noteq> promiseId (timers w ! i)
            \<longrightarrow> await (fire i w) (Follow q) = await w (Follow q))"
  using assms
  by (simp add: fire_due checkConfig_truthy checkConfig_timeout checkConfig_again
      await_resolve await_reject await_other_checkConfig)

theorem orphan_check_effect_witness:
  "0 < length (timers orphan_world) \<and> due (timers orphan_world ! 0) \<le> now orphan_world
   \<and> loadingPromise (loader orphan_world) \<noteq> Some (promiseId (timers orphan_world ! 0))
   \<and> config (loader (fire 0 orphan_world)) = Some [''X'' \<mapsto> ''1'']
   \<and> await (fire 0 orphan_world) (Follow 0) = Resolved [''X'' \<mapsto> ''1'']
   \<and> await (fire 0 orphan_world) (Follow 1) = Waiting"
proof -
  have h1: "0 < length (timers orphan_world)"
    and h2: "due (timers orphan_world ! 0) \<le> now orphan_world"
    and o: "loadingPromise (loader orphan_world) \<noteq> Some (promiseId (timers orphan_world ! 0))"
    and s: "window orphan_world (configKey' (loader orphan_world)) = Some [''X'' \<mapsto> ''1'']"
    and p: "is_pending orphan_world (promiseId (timers orphan_world ! 0))"
    and q: "promiseId (timers orphan_world ! 0) = 0"
    and a1: "await orphan_world (Follow 1) = Waiting"
    by (simp_all add: orphan_world_eq is_pending_def await_def)
  from orphan_check_effect [OF h1 h2] h1 h2 o s p a1 show ?thesis
    by (simp add: q)
qed

text \<open>
  C9 as it is stated fails. A first \<open>get\<close> starts a wait, \<open>reload\<close> abandons it and a second
  \<open>get\<close> starts a new cycle with promise 1; then the slot appears. When the check of the
  abandoned wait (promise 0) fires first, the cache of the instance, empty after the
  reset, holds the slot's object, and the in-flight reference to the pending promise 1 of
  the new cycle is gone.
\<close>

theorem orphan_check_counterexample:
  "config (loader orphan_world) = None
   \<and> loadingPromise (loader orphan_world) = Some 1
   \<and> promiseId (timers orphan_world ! 0) = 0
   \<and> config (loader (fire 0 orphan_world)) = Some [''X'' \<mapsto> ''1'']
   \<and> loadingPromise (loader (fire 0 orphan_world)) = None
   \<and> is_pending (fire 0 orphan_world) 1"
  by (simp add: orphan_world_eq eval_defs)

end
